theory Spec2Isabelle
  imports Main "HOL-Library.Word"
begin

unbundle bit_operations_syntax

section \<open>Basic types\<close>

text \<open>
  Go's \<open>uint64\<close> is a 64-bit word (arithmetic wraps). \<open>common.Hash\<close> is \<open>[32]byte\<close> and
  \<open>common.Address\<close> is \<open>[20]byte\<close>; a fixed byte array is read as the big-endian word of
  the same width, so that array equality is word equality and \<open>bytes.Compare\<close> on two
  hashes is the order of the words. Byte slices are lists.
\<close>

type_synonym byte = "8 word"
type_synonym uint64 = "64 word"
type_synonym hash = "256 word"
type_synonym address = "160 word"

datatype error =
    ErrInvalidState
  | ErrBatchNotFound
  | ErrInvalidTransition
  | ErrAlreadyTriggered
  | ErrNotTriggered
  | ErrNotSubmitted
  | ErrNotConfirmed
  | ErrAlreadyAnchored
  | ErrSnapshotNotFound
  | ErrInvalidSnapshot
  | ErrNotSystemTx
  | ErrInvalidSender
  | ErrInvalidRecipient
  | ErrInvalidCalldata
  | ErrInvalidOTSTx
  | ErrInvalidCandidate
  | ErrJSON

section \<open>Library functions the sources call\<close>

subsection \<open>math/big and common.Hash conversions\<close>

text \<open>
  \<open>big.Int.Bytes\<close> is the big-endian representation of the absolute value without
  leading zero bytes; \<open>big.Int.SetBytes\<close> reads a big-endian slice as an unsigned
  number.
\<close>

function big_Bytes :: "nat \<Rightarrow> byte list" where
  "big_Bytes n = (if n = 0 then [] else big_Bytes (n div 256) @ [of_nat (n mod 256)])"
  by pat_completeness auto
termination
  by (relation "measure id") auto

declare big_Bytes.simps [simp del]

definition big_SetBytes :: "byte list \<Rightarrow> nat" where
  "big_SetBytes bs = foldl (\<lambda>acc b. 256 * acc + unat b) 0 bs"

text \<open>
  \<open>common.BytesToHash\<close> right-aligns the slice in the 32 bytes and keeps only the last 32
  bytes of a longer slice; \<open>h[:]\<close> and \<open>h.Bytes()\<close> are the 32 bytes of a hash.
\<close>

definition BytesToHash :: "byte list \<Rightarrow> hash" where
  "BytesToHash b = of_nat (big_SetBytes b)"

definition leftPad :: "nat \<Rightarrow> byte list \<Rightarrow> byte list" where
  "leftPad n bs = replicate (n - length bs) 0 @ bs"

definition hashBytes :: "hash \<Rightarrow> byte list" where
  "hashBytes h = leftPad 32 (big_Bytes (unat h))"

text \<open>
  Go's builtin \<open>copy(data[lo:hi], src)\<close> on a slice of a buffer: it overwrites
  \<open>min (hi - lo) (len src)\<close> bytes starting at \<open>lo\<close>. Every call in the sources has
  \<open>lo \<le> hi \<le> len data\<close> (otherwise slicing panics).
\<close>

definition copy_into :: "byte list \<Rightarrow> nat \<Rightarrow> nat \<Rightarrow> byte list \<Rightarrow> byte list" where
  "copy_into data lo hi src =
     take lo data @ take (hi - lo) src @ drop (lo + min (hi - lo) (length src)) data"

text \<open>\<open>data[lo:hi]\<close>.\<close>

definition slice :: "byte list \<Rightarrow> nat \<Rightarrow> nat \<Rightarrow> byte list" where
  "slice data lo hi = take (hi - lo) (drop lo data)"

subsection \<open>Hexadecimal strings\<close>

text \<open>
  \<open>common.HexToHash s = BytesToHash (FromHex s)\<close>. \<open>FromHex\<close> strips a leading
  \<open>0x\<close> or \<open>0X\<close>, prepends \<open>0\<close> to a string of odd length and decodes with
  \<open>hex.DecodeString\<close>, whose error it drops: the bytes decoded before the first
  malformed pair are kept. \<open>common.Bytes2Hex\<close> is lower-case hexadecimal.
\<close>

definition hexDigit :: "char \<Rightarrow> nat option" where
  "hexDigit c =
     (let n = (of_char c :: nat) in
      if 48 \<le> n \<and> n \<le> 57 then Some (n - 48)
      else if 97 \<le> n \<and> n \<le> 102 then Some (n - 87)
      else if 65 \<le> n \<and> n \<le> 70 then Some (n - 55)
      else None)"

fun hex_DecodeString :: "string \<Rightarrow> byte list" where
  "hex_DecodeString (c # d # rest) =
     (case (hexDigit c, hexDigit d) of
        (Some hi, Some lo) \<Rightarrow> of_nat (16 * hi + lo) # hex_DecodeString rest
      | _ \<Rightarrow> [])"
| "hex_DecodeString s = []"

definition has0xPrefix :: "string \<Rightarrow> bool" where
  "has0xPrefix s = (length s \<ge> 2 \<and> s ! 0 = CHR ''0'' \<and> (s ! 1 = CHR ''x'' \<or> s ! 1 = CHR ''X''))"

definition FromHex :: "string \<Rightarrow> byte list" where
  "FromHex s =
     (let s1 = (if has0xPrefix s then drop 2 s else s);
          s2 = (if length s1 mod 2 = 1 then CHR ''0'' # s1 else s1)
      in hex_DecodeString s2)"

definition HexToHash :: "string \<Rightarrow> hash" where
  "HexToHash s = BytesToHash (FromHex s)"

definition hexChar :: "nat \<Rightarrow> char" where
  "hexChar n = ''0123456789abcdef'' ! n"

definition Bytes2Hex :: "byte list \<Rightarrow> string" where
  "Bytes2Hex bs = concat (map (\<lambda>b. [hexChar (unat b div 16), hexChar (unat b mod 16)]) bs)"

subsection \<open>Keccak-256\<close>

text \<open>
  \<open>crypto.Keccak256\<close> is the original Keccak with rate 1088 bits, capacity 512 and the
  padding byte \<open>0x01\<close>. A lane is its 64 bits, least significant first; the state is
  five rows of five lanes, lane \<open>(x, y)\<close> being entry \<open>x\<close> of row \<open>y\<close>.
\<close>

type_synonym lane = "bool list"
type_synonym krow = "lane \<times> lane \<times> lane \<times> lane \<times> lane"
type_synonym kstate = "krow \<times> krow \<times> krow \<times> krow \<times> krow"

fun xor64 :: "lane \<Rightarrow> lane \<Rightarrow> lane" where
  "xor64 (a # as) (b # bs) = (a \<noteq> b) # xor64 as bs"
| "xor64 as bs = []"

fun chi64 :: "lane \<Rightarrow> lane \<Rightarrow> lane \<Rightarrow> lane" where
  "chi64 (a # as) (b # bs) (c # cs) = (a \<noteq> (\<not> b \<and> c)) # chi64 as bs cs"
| "chi64 as bs cs = []"

definition rotl64 :: "nat \<Rightarrow> lane \<Rightarrow> lane" where
  "rotl64 n w = drop (64 - n) w @ take (64 - n) w"

fun xor_row :: "krow \<Rightarrow> krow \<Rightarrow> krow" where
  "xor_row (a0, a1, a2, a3, a4) (b0, b1, b2, b3, b4) =
     (xor64 a0 b0, xor64 a1 b1, xor64 a2 b2, xor64 a3 b3, xor64 a4 b4)"

fun theta_D :: "krow \<Rightarrow> krow" where
  "theta_D (c0, c1, c2, c3, c4) =
     (xor64 c4 (rotl64 1 c1), xor64 c0 (rotl64 1 c2), xor64 c1 (rotl64 1 c3),
      xor64 c2 (rotl64 1 c4), xor64 c3 (rotl64 1 c0))"

fun xor_rows :: "krow \<Rightarrow> kstate \<Rightarrow> kstate" where
  "xor_rows d (r0, r1, r2, r3, r4) =
     (xor_row r0 d, xor_row r1 d, xor_row r2 d, xor_row r3 d, xor_row r4 d)"

fun theta :: "kstate \<Rightarrow> kstate" where
  "theta (r0, r1, r2, r3, r4) =
     xor_rows (theta_D (xor_row r0 (xor_row r1 (xor_row r2 (xor_row r3 r4)))))
       (r0, r1, r2, r3, r4)"

fun rho_pi :: "kstate \<Rightarrow> kstate" where
  "rho_pi
     ((a0, a1, a2, a3, a4),
      (a5, a6, a7, a8, a9),
      (a10, a11, a12, a13, a14),
      (a15, a16, a17, a18, a19),
      (a20, a21, a22, a23, a24)) =
     ((a0, rotl64 44 a6, rotl64 43 a12, rotl64 21 a18, rotl64 14 a24),
      (rotl64 28 a3, rotl64 20 a9, rotl64 3 a10, rotl64 45 a16, rotl64 61 a22),
      (rotl64 1 a1, rotl64 6 a7, rotl64 25 a13, rotl64 8 a19, rotl64 18 a20),
      (rotl64 27 a4, rotl64 36 a5, rotl64 10 a11, rotl64 15 a17, rotl64 56 a23),
      (rotl64 62 a2, rotl64 55 a8, rotl64 39 a14, rotl64 41 a15, rotl64 2 a21))"

fun chi_row :: "krow \<Rightarrow> krow" where
  "chi_row (b0, b1, b2, b3, b4) =
     (chi64 b0 b1 b2, chi64 b1 b2 b3, chi64 b2 b3 b4, chi64 b3 b4 b0, chi64 b4 b0 b1)"

fun chi :: "kstate \<Rightarrow> kstate" where
  "chi (r0, r1, r2, r3, r4) = (chi_row r0, chi_row r1, chi_row r2, chi_row r3, chi_row r4)"

fun iota :: "lane \<Rightarrow> kstate \<Rightarrow> kstate" where
  "iota rc ((a0, a1, a2, a3, a4), rest) = ((xor64 a0 rc, a1, a2, a3, a4), rest)"

definition keccak_round :: "lane \<Rightarrow> kstate \<Rightarrow> kstate" where
  "keccak_round rc st = iota rc (chi (rho_pi (theta st)))"

fun byte_bits :: "byte \<Rightarrow> bool list" where
  "byte_bits b = [bit b 0, bit b 1, bit b 2, bit b 3, bit b 4, bit b 5, bit b 6, bit b 7]"

fun le_lane :: "byte list \<Rightarrow> lane" where
  "le_lane [] = []"
| "le_lane (b # bs) = byte_bits b @ le_lane bs"

text \<open>The 24 round constants, each as its eight bytes, least significant first.\<close>

definition round_constants :: "lane list" where
  "round_constants = map le_lane
    [[0x01, 0, 0, 0, 0, 0, 0, 0], [0x82, 0x80, 0, 0, 0, 0, 0, 0],
     [0x8A, 0x80, 0, 0, 0, 0, 0, 0x80], [0x00, 0x80, 0x00, 0x80, 0, 0, 0, 0x80],
     [0x8B, 0x80, 0, 0, 0, 0, 0, 0], [0x01, 0x00, 0x00, 0x80, 0, 0, 0, 0],
     [0x81, 0x80, 0x00, 0x80, 0, 0, 0, 0x80], [0x09, 0x80, 0, 0, 0, 0, 0, 0x80],
     [0x8A, 0, 0, 0, 0, 0, 0, 0], [0x88, 0, 0, 0, 0, 0, 0, 0],
     [0x09, 0x80, 0x00, 0x80, 0, 0, 0, 0], [0x0A, 0x00, 0x00, 0x80, 0, 0, 0, 0],
     [0x8B, 0x80, 0x00, 0x80, 0, 0, 0, 0], [0x8B, 0, 0, 0, 0, 0, 0, 0x80],
     [0x89, 0x80, 0, 0, 0, 0, 0, 0x80], [0x03, 0x80, 0, 0, 0, 0, 0, 0x80],
     [0x02, 0x80, 0, 0, 0, 0, 0, 0x80], [0x80, 0, 0, 0, 0, 0, 0, 0x80],
     [0x0A, 0x80, 0, 0, 0, 0, 0, 0], [0x0A, 0x00, 0x00, 0x80, 0, 0, 0, 0x80],
     [0x81, 0x80, 0x00, 0x80, 0, 0, 0, 0x80], [0x80, 0x80, 0, 0, 0, 0, 0, 0x80],
     [0x01, 0x00, 0x00, 0x80, 0, 0, 0, 0], [0x08, 0x80, 0x00, 0x80, 0, 0, 0, 0x80]]"

definition keccak_f :: "kstate \<Rightarrow> kstate" where
  "keccak_f st = fold keccak_round round_constants st"

fun le_lanes :: "byte list \<Rightarrow> lane list" where
  "le_lanes (b0 # b1 # b2 # b3 # b4 # b5 # b6 # b7 # bs) =
     le_lane [b0, b1, b2, b3, b4, b5, b6, b7] # le_lanes bs"
| "le_lanes bs = []"

definition zero_lane :: lane where
  "zero_lane = replicate 64 False"

definition zero_row :: krow where
  "zero_row = (zero_lane, zero_lane, zero_lane, zero_lane, zero_lane)"

definition zero_state :: kstate where
  "zero_state = (zero_row, zero_row, zero_row, zero_row, zero_row)"

text \<open>A block of 136 bytes is 17 lanes; they fill the state from lane (0, 0) on.\<close>

definition block_state :: "lane list \<Rightarrow> kstate" where
  "block_state ls =
     ((ls ! 0, ls ! 1, ls ! 2, ls ! 3, ls ! 4), (ls ! 5, ls ! 6, ls ! 7, ls ! 8, ls ! 9),
      (ls ! 10, ls ! 11, ls ! 12, ls ! 13, ls ! 14),
      (ls ! 15, ls ! 16, zero_lane, zero_lane, zero_lane), zero_row)"

fun xor_state :: "kstate \<Rightarrow> kstate \<Rightarrow> kstate" where
  "xor_state (r0, r1, r2, r3, r4) (s0, s1, s2, s3, s4) =
     (xor_row r0 s0, xor_row r1 s1, xor_row r2 s2, xor_row r3 s3, xor_row r4 s4)"

definition pad101 :: "byte list \<Rightarrow> byte list" where
  "pad101 msg =
     (let q = 136 - length msg mod 136
      in if q = 1 then msg @ [0x81] else msg @ [0x01] @ replicate (q - 2) 0 @ [0x80])"

fun absorb :: "nat \<Rightarrow> kstate \<Rightarrow> byte list \<Rightarrow> kstate" where
  "absorb 0 st bs = st"
| "absorb (Suc n) st bs =
     absorb n (keccak_f (xor_state st (block_state (le_lanes (take 136 bs))))) (drop 136 bs)"

fun bits_byte :: "bool list \<Rightarrow> byte" where
  "bits_byte [] = 0"
| "bits_byte (b # bs) = (if b then 1 else 0) + 2 * bits_byte bs"

fun lane_bytes :: "lane \<Rightarrow> byte list" where
  "lane_bytes (b0 # b1 # b2 # b3 # b4 # b5 # b6 # b7 # bs) =
     bits_byte [b0, b1, b2, b3, b4, b5, b6, b7] # lane_bytes bs"
| "lane_bytes bs = []"

fun squeeze :: "kstate \<Rightarrow> byte list" where
  "squeeze ((a0, a1, a2, a3, a4), rest) =
     lane_bytes a0 @ lane_bytes a1 @ lane_bytes a2 @ lane_bytes a3"

definition Keccak256 :: "byte list \<Rightarrow> byte list" where
  "Keccak256 msg = squeeze (absorb (length (pad101 msg) div 136) zero_state (pad101 msg))"

definition Keccak256Hash :: "byte list \<Rightarrow> hash" where
  "Keccak256Hash msg = BytesToHash (Keccak256 msg)"

text \<open>\<open>[]byte(s)\<close> for a string literal.\<close>

definition stringBytes :: "string \<Rightarrow> byte list" where
  "stringBytes s = map of_char s"

section \<open>consensus/state.go: the batch state machine\<close>

text \<open>\<open>BatchStatus\<close> is a \<open>uint8\<close> with five named values.\<close>

type_synonym BatchStatus = "8 word"

abbreviation (input) BatchStatusNone :: BatchStatus where "BatchStatusNone \<equiv> 0"
abbreviation (input) BatchStatusTriggered :: BatchStatus where "BatchStatusTriggered \<equiv> 1"
abbreviation (input) BatchStatusSubmitted :: BatchStatus where "BatchStatusSubmitted \<equiv> 2"
abbreviation (input) BatchStatusConfirmed :: BatchStatus where "BatchStatusConfirmed \<equiv> 3"
abbreviation (input) BatchStatusAnchored :: BatchStatus where "BatchStatusAnchored \<equiv> 4"

definition CanTransitionTo :: "BatchStatus \<Rightarrow> BatchStatus \<Rightarrow> bool" where
  "CanTransitionTo s target =
     (if s = BatchStatusNone then target = BatchStatusTriggered
      else if s = BatchStatusTriggered then target = BatchStatusSubmitted
      else if s = BatchStatusSubmitted then target = BatchStatusConfirmed
      else if s = BatchStatusConfirmed
        then target = BatchStatusAnchored \<or> target = BatchStatusNone
      else if s = BatchStatusAnchored then target = BatchStatusNone
      else False)"

record BatchState =
  StartBlock :: uint64
  EndBlock :: uint64
  RootHash :: hash
  Status :: BatchStatus
  TriggerBlock :: uint64
  TriggerNode :: address
  OTSDigest :: hash
  SubmittedAt :: uint64
  SubmittedBy :: address
  BTCBlockHeight :: uint64
  BTCTxID :: string
  BTCTimestamp :: uint64
  ConfirmedAt :: uint64
  ConfirmedBy :: address
  AnchoredAt :: uint64
  AnchoredBy :: address

text \<open>\<open>CurrentBatch\<close> is a pointer in the source; \<open>None\<close> is the nil pointer.\<close>

record OTSState =
  Enabled :: bool
  LastAnchoredBlock :: uint64
  CurrentBatch :: "BatchState option"

definition NewOTSState :: "bool \<Rightarrow> OTSState" where
  "NewOTSState enabled =
     \<lparr>Enabled = enabled, LastAnchoredBlock = 0, CurrentBatch = None\<rparr>"

definition HasActiveBatch :: "OTSState \<Rightarrow> bool" where
  "HasActiveBatch s =
     (case CurrentBatch s of None \<Rightarrow> False | Some b \<Rightarrow> Status b \<noteq> BatchStatusNone)"

definition CanTrigger :: "OTSState \<Rightarrow> bool" where
  "CanTrigger s = (Enabled s \<and> \<not> HasActiveBatch s)"

text \<open>
  The four operations mutate their receiver and return an error. Each is modelled as a
  function to the pair of the returned error (\<open>None\<close> is Go's nil) and the receiver as
  the call leaves it.
\<close>

definition Trigger ::
  "uint64 \<Rightarrow> uint64 \<Rightarrow> uint64 \<Rightarrow> address \<Rightarrow> hash \<Rightarrow> OTSState \<Rightarrow> error option \<times> OTSState"
where
  "Trigger startBlock endBlock triggerBlock triggerNode rootHash s =
     (if \<not> CanTrigger s then (Some ErrAlreadyTriggered, s)
      else (None, s\<lparr>CurrentBatch := Some
              \<lparr>StartBlock = startBlock, EndBlock = endBlock, RootHash = rootHash,
               Status = BatchStatusTriggered, TriggerBlock = triggerBlock,
               TriggerNode = triggerNode, OTSDigest = 0, SubmittedAt = 0, SubmittedBy = 0,
               BTCBlockHeight = 0, BTCTxID = [], BTCTimestamp = 0, ConfirmedAt = 0,
               ConfirmedBy = 0, AnchoredAt = 0, AnchoredBy = 0\<rparr>\<rparr>))"

definition MarkSubmitted ::
  "hash \<Rightarrow> uint64 \<Rightarrow> address \<Rightarrow> OTSState \<Rightarrow> error option \<times> OTSState"
where
  "MarkSubmitted digest blockNumber submitter s =
     (case CurrentBatch s of
        None \<Rightarrow> (Some ErrNotTriggered, s)
      | Some b \<Rightarrow>
          if Status b \<noteq> BatchStatusTriggered then (Some ErrNotTriggered, s)
          else if \<not> CanTransitionTo (Status b) BatchStatusSubmitted
            then (Some ErrInvalidTransition, s)
          else (None, s\<lparr>CurrentBatch := Some
                  (b\<lparr>OTSDigest := digest, SubmittedAt := blockNumber,
                     SubmittedBy := submitter, Status := BatchStatusSubmitted\<rparr>)\<rparr>))"

definition MarkConfirmed ::
  "uint64 \<Rightarrow> string \<Rightarrow> uint64 \<Rightarrow> uint64 \<Rightarrow> address \<Rightarrow> OTSState \<Rightarrow> error option \<times> OTSState"
where
  "MarkConfirmed btcBlockHeight btcTxID btcTimestamp blockNumber confirmer s =
     (case CurrentBatch s of
        None \<Rightarrow> (Some ErrNotSubmitted, s)
      | Some b \<Rightarrow>
          if Status b \<noteq> BatchStatusSubmitted then (Some ErrNotSubmitted, s)
          else if \<not> CanTransitionTo (Status b) BatchStatusConfirmed
            then (Some ErrInvalidTransition, s)
          else (None, s\<lparr>CurrentBatch := Some
                  (b\<lparr>BTCBlockHeight := btcBlockHeight, BTCTxID := btcTxID,
                     BTCTimestamp := btcTimestamp, ConfirmedAt := blockNumber,
                     ConfirmedBy := confirmer, Status := BatchStatusConfirmed\<rparr>)\<rparr>))"

text \<open>
  \<open>MarkAnchored\<close> writes the anchor fields into the batch record and then sets the
  pointer to nil, so the written record is unreachable from the state it leaves.
\<close>

definition MarkAnchored :: "uint64 \<Rightarrow> address \<Rightarrow> OTSState \<Rightarrow> error option \<times> OTSState" where
  "MarkAnchored blockNumber anchorer s =
     (case CurrentBatch s of
        None \<Rightarrow> (Some ErrNotConfirmed, s)
      | Some b \<Rightarrow>
          if Status b \<noteq> BatchStatusConfirmed then (Some ErrNotConfirmed, s)
          else if \<not> CanTransitionTo (Status b) BatchStatusAnchored
            then (Some ErrInvalidTransition, s)
          else (None, s\<lparr>LastAnchoredBlock := EndBlock b, CurrentBatch := None\<rparr>))"

section \<open>consensus/snapshot.go: snapshots\<close>

text \<open>\<open>State\<close> is a pointer; a snapshot decoded from storage may carry nil.\<close>

record Snapshot =
  SnapNumber :: uint64
  SnapHash :: hash
  State :: "OTSState option"

definition NewSnapshot :: "uint64 \<Rightarrow> hash \<Rightarrow> OTSState \<Rightarrow> Snapshot" where
  "NewSnapshot number h state = \<lparr>SnapNumber = number, SnapHash = h, State = Some state\<rparr>"

text \<open>
  The manager's cache and database are read as lookups. A database entry is what
  \<open>DecodeSnapshot\<close> returns on the stored bytes; a missing key is \<open>None\<close>.
\<close>

record SnapshotManager =
  cache :: "hash \<Rightarrow> Snapshot option"
  db :: "hash \<Rightarrow> (error + Snapshot) option"
  otsEnabled :: bool

definition loadFromDB :: "SnapshotManager \<Rightarrow> hash \<Rightarrow> error + Snapshot" where
  "loadFromDB sm h = (case db sm h of None \<Rightarrow> Inl ErrSnapshotNotFound | Some r \<Rightarrow> r)"

text \<open>
  A call that panics or does not return has no result: it is \<open>Inl\<close> of the fault, and
  \<open>Inr\<close> of the result otherwise.
\<close>

datatype fault = NilDereference | NoReturn

text \<open>
  \<open>Copy\<close> of a snapshot calls \<open>s.State.Copy()\<close>, which reads the fields of the state:
  on a nil state it panics. The copy of a state has the fields of the state.
\<close>

definition Copy_snapshot :: "Snapshot \<Rightarrow> fault + Snapshot" where
  "Copy_snapshot s =
     (case State s of
        None \<Rightarrow> Inl NilDereference
      | Some state \<Rightarrow>
          Inr \<lparr>SnapNumber = SnapNumber s, SnapHash = SnapHash s, State = Some state\<rparr>)"

text \<open>
  \<open>GetSnapshot\<close> returns a copy of the cached snapshot, or a copy of the one loaded
  from the database (which it also adds to the cache; the result does not depend on
  that), or the error of loading.
\<close>

definition GetSnapshot :: "SnapshotManager \<Rightarrow> hash \<Rightarrow> fault + (error + Snapshot)" where
  "GetSnapshot sm h =
     (case cache sm h of
        Some snap \<Rightarrow> map_sum id Inr (Copy_snapshot snap)
      | None \<Rightarrow>
          (case loadFromDB sm h of
             Inl err \<Rightarrow> Inr (Inl err)
           | Inr snap \<Rightarrow> map_sum id Inr (Copy_snapshot snap)))"

definition GetGenesisSnapshot :: "SnapshotManager \<Rightarrow> hash \<Rightarrow> Snapshot" where
  "GetGenesisSnapshot sm genesisHash = NewSnapshot 0 genesisHash (NewOTSState (otsEnabled sm))"

section \<open>consensus/transitions.go: the transition engine\<close>

subsection \<open>Headers, receipts and logs\<close>

text \<open>
  Of a header the engine reads the parent hash, the coinbase, the timestamp,
  \<open>Number.Uint64()\<close> (field \<open>Number\<close>) and \<open>Hash()\<close> (field \<open>Hash\<close>).
\<close>

record Header =
  ParentHash :: hash
  Coinbase :: address
  Number :: uint64
  Time :: uint64
  Hash :: hash

record Log =
  Address :: address
  Topics :: "hash list"
  Data :: "byte list"

record Receipt =
  ReceiptStatus :: uint64
  Logs :: "Log list"

definition ReceiptStatusSuccessful :: uint64 where
  "ReceiptStatusSuccessful = 1"

definition TriggerHourUTC :: int where
  "TriggerHourUTC = 0"

definition copyrightRegistryAddr :: address where
  "copyrightRegistryAddr = 0x9000"

record TransitionEngine =
  getReceipts :: "hash \<Rightarrow> uint64 \<Rightarrow> Receipt list"
  getHeader :: "hash \<Rightarrow> uint64 \<Rightarrow> Header option"

subsection \<open>UTC calendar fields of a timestamp\<close>

text \<open>
  \<open>time.Unix(int64(t), 0).UTC()\<close> is represented by what its \<open>abs\<close> method returns: the
  seconds since the start of the year -292277022399, as a \<open>uint64\<close>, which is
  \<open>uint64(int64(t) + unixToInternal + internalToAbsolute)\<close> and wraps around for the
  timestamps from \<open>2^63\<close> to \<open>2^63 + 8139454207\<close>. \<open>Hour\<close>, \<open>Year\<close> and \<open>YearDay\<close>
  (1 to 366) are computed from it as \<open>absDate\<close> does: the days are cut into cycles of
  400, 100, 4 and 1 years.
\<close>

definition unixToInternal :: uint64 where
  "unixToInternal = 62135596800"

definition internalToAbsolute :: uint64 where
  "internalToAbsolute = 9223371966579724800"

definition absoluteZeroYear :: int where
  "absoluteZeroYear = - 292277022399"

definition unixUTC :: "uint64 \<Rightarrow> uint64" where
  "unixUTC t = t + (unixToInternal + internalToAbsolute)"

definition Hour :: "uint64 \<Rightarrow> int" where
  "Hour a = (uint a mod 86400) div 3600"

definition absDays :: "uint64 \<Rightarrow> int" where
  "absDays a = uint a div 86400"

text \<open>
  One cut takes \<open>n\<close> cycles of \<open>days\<close> days and \<open>years\<close> years off the pair of the years
  counted and the days left. The cuts of 100 years and of 1 year take at most three
  cycles out of four (\<open>n - n div 4\<close>, Go's \<open>n -= n >> 2\<close>), which leaves the leap day in
  the last cycle.
\<close>

fun cutBy :: "int \<Rightarrow> int \<Rightarrow> int \<Rightarrow> int \<times> int \<Rightarrow> int \<times> int" where
  "cutBy years days n (y, d) = (y + years * n, d - days * n)"

definition atMost3 :: "int \<Rightarrow> int" where
  "atMost3 n = n - n div 4"

fun cut400 :: "int \<times> int \<Rightarrow> int \<times> int" where
  "cut400 (y, d) = cutBy 400 146097 (d div 146097) (y, d)"

fun cut100 :: "int \<times> int \<Rightarrow> int \<times> int" where
  "cut100 (y, d) = cutBy 100 36524 (atMost3 (d div 36524)) (y, d)"

fun cut4 :: "int \<times> int \<Rightarrow> int \<times> int" where
  "cut4 (y, d) = cutBy 4 1461 (d div 1461) (y, d)"

fun cut1 :: "int \<times> int \<Rightarrow> int \<times> int" where
  "cut1 (y, d) = cutBy 1 365 (atMost3 (d div 365)) (y, d)"

definition absDate :: "uint64 \<Rightarrow> int \<times> int" where
  "absDate a = cut1 (cut4 (cut100 (cut400 (0, absDays a))))"

definition Year :: "uint64 \<Rightarrow> int" where
  "Year a = fst (absDate a) + absoluteZeroYear"

definition YearDay :: "uint64 \<Rightarrow> int" where
  "YearDay a = snd (absDate a) + 1"

subsection \<open>The trigger predicate\<close>

definition isTriggerBlock :: "TransitionEngine \<Rightarrow> Header \<Rightarrow> bool" where
  "isTriggerBlock te header =
     (case getHeader te (ParentHash header) (Number header - 1) of
        None \<Rightarrow> False
      | Some parentHeader \<Rightarrow>
          (let currentTime = unixUTC (Time header);
               parentTime = unixUTC (Time parentHeader);
               currentDay = YearDay currentTime;
               parentDay = YearDay parentTime;
               currentYear = Year currentTime;
               parentYear = Year parentTime
           in if currentYear > parentYear \<or> currentDay > parentDay
              then Hour currentTime \<ge> TriggerHourUTC
              else Hour parentTime < TriggerHourUTC \<and> Hour currentTime \<ge> TriggerHourUTC))"

subsection \<open>Merkle root\<close>

text \<open>
  One pass over a layer of even length: each pair is ordered by \<open>bytes.Compare\<close> and
  hashed. The loop calls it only after padding an odd layer.
\<close>

definition hashPair :: "hash \<Rightarrow> hash \<Rightarrow> hash" where
  "hashPair left right =
     (if left > right then Keccak256Hash (hashBytes right @ hashBytes left)
      else Keccak256Hash (hashBytes left @ hashBytes right))"

fun combineLayer :: "hash list \<Rightarrow> hash list" where
  "combineLayer (left # right # rest) = hashPair left right # combineLayer rest"
| "combineLayer rest = []"

function layersLoop :: "hash list \<Rightarrow> hash" where
  "layersLoop currentLayer =
     (if length currentLayer > 1
      then layersLoop (combineLayer
             (if length currentLayer mod 2 = 1 then currentLayer @ [last currentLayer]
              else currentLayer))
      else currentLayer ! 0)"
  by pat_completeness auto
termination
proof (relation "measure length")
  show "wf (measure (length :: hash list \<Rightarrow> nat))" by simp
next
  fix currentLayer :: "hash list"
  assume gt: "1 < length currentLayer"
  have len: "length (combineLayer xs) = length xs div 2" for xs
    by (induction xs rule: combineLayer.induct) simp_all
  show "(combineLayer
           (if length currentLayer mod 2 = 1 then currentLayer @ [last currentLayer]
            else currentLayer), currentLayer) \<in> measure length"
    using gt by (simp add: len) presburger
qed

declare layersLoop.simps [simp del]

definition buildMerkleRoot :: "hash list \<Rightarrow> hash" where
  "buildMerkleRoot ruids =
     (if length ruids = 0 then 0
      else layersLoop (map (\<lambda>ruid. Keccak256Hash (hashBytes ruid)) ruids))"

subsection \<open>Root of a block range\<close>

text \<open>\<open>getRUIDsFromBlock\<close> is a placeholder in the source: it returns nil.\<close>

definition getRUIDsFromBlock :: "TransitionEngine \<Rightarrow> uint64 \<Rightarrow> hash list" where
  "getRUIDsFromBlock te blockNum = []"

text \<open>
  The collecting loop \<open>for blockNum := startBlock; blockNum <= endBlock; blockNum++\<close>
  counts in \<open>uint64\<close>: with \<open>endBlock\<close> the largest value the condition never fails.
  \<open>None\<close> is the run that does not return.
\<close>

partial_function (option) collectRUIDs ::
  "TransitionEngine \<Rightarrow> uint64 \<Rightarrow> uint64 \<Rightarrow> hash list \<Rightarrow> hash list option"
where
  "collectRUIDs te blockNum endBlock ruids =
     (if blockNum \<le> endBlock
      then collectRUIDs te (blockNum + 1) endBlock (ruids @ getRUIDsFromBlock te blockNum)
      else Some ruids)"

definition calculateRootHash :: "TransitionEngine \<Rightarrow> uint64 \<Rightarrow> uint64 \<Rightarrow> hash option" where
  "calculateRootHash te startBlock endBlock =
     (case collectRUIDs te startBlock endBlock [] of
        None \<Rightarrow> None
      | Some ruids \<Rightarrow>
          Some (if length ruids = 0 then 0 else buildMerkleRoot (sort ruids)))"

subsection \<open>Rule 1: trigger\<close>

definition handleTrigger :: "TransitionEngine \<Rightarrow> OTSState \<Rightarrow> Header \<Rightarrow> OTSState option" where
  "handleTrigger te state header =
     (let blockNumber = Number header;
          startBlock = LastAnchoredBlock state + 1;
          endBlock = blockNumber - 1
      in if endBlock < startBlock then Some state
         else (case calculateRootHash te startBlock endBlock of
                 None \<Rightarrow> None
               | Some rootHash \<Rightarrow>
                   Some (snd (Trigger startBlock endBlock blockNumber (Coinbase header)
                                rootHash state))))"

subsection \<open>Parsing the event logs\<close>

definition otsSubmittedSig :: hash where
  "otsSubmittedSig = Keccak256Hash (stringBytes ''OTSSubmitted(bytes32,bytes32)'')"

definition otsConfirmedSig :: hash where
  "otsConfirmedSig = Keccak256Hash (stringBytes ''OTSConfirmed(bytes32,uint64,bytes32,uint64)'')"

definition anchoredSig :: hash where
  "anchoredSig = Keccak256Hash (stringBytes ''Anchored(bytes32,uint64,uint64,uint64)'')"

record OTSSubmission =
  RootHash_sub :: hash
  Digest :: hash

definition parseOTSSubmittedLog :: "Log \<Rightarrow> OTSSubmission option" where
  "parseOTSSubmittedLog l =
     (if length (Topics l) < 2 \<or> Topics l ! 0 \<noteq> otsSubmittedSig then None
      else if length (Data l) < 32 then None
      else Some \<lparr>RootHash_sub = Topics l ! 1, Digest = BytesToHash (slice (Data l) 0 32)\<rparr>)"

fun submissionInLogs :: "Log list \<Rightarrow> OTSSubmission option" where
  "submissionInLogs [] = None"
| "submissionInLogs (l # ls) =
     (if Address l = copyrightRegistryAddr
      then (case parseOTSSubmittedLog l of
              Some submission \<Rightarrow> Some submission
            | None \<Rightarrow> submissionInLogs ls)
      else submissionInLogs ls)"

fun extractOTSSubmission :: "Header \<Rightarrow> Receipt list \<Rightarrow> OTSSubmission option" where
  "extractOTSSubmission header [] = None"
| "extractOTSSubmission header (receipt # receipts) =
     (if ReceiptStatus receipt \<noteq> ReceiptStatusSuccessful
      then extractOTSSubmission header receipts
      else (case submissionInLogs (Logs receipt) of
              Some submission \<Rightarrow> Some submission
            | None \<Rightarrow> extractOTSSubmission header receipts))"

record BTCConfirmation =
  RootHash_conf :: hash
  BTCBlockHeight_conf :: uint64
  BTCTxID_conf :: string
  BTCTimestamp_conf :: uint64

text \<open>\<open>common.BytesToHash(b).Big().Uint64()\<close> keeps the low 64 bits.\<close>

definition hashUint64 :: "byte list \<Rightarrow> uint64" where
  "hashUint64 b = of_nat (unat (BytesToHash b))"

definition parseOTSConfirmedLog :: "Log \<Rightarrow> BTCConfirmation option" where
  "parseOTSConfirmedLog l =
     (if length (Topics l) < 2 \<or> Topics l ! 0 \<noteq> otsConfirmedSig then None
      else if length (Data l) < 96 then None
      else Some \<lparr>RootHash_conf = Topics l ! 1,
                 BTCBlockHeight_conf = hashUint64 (slice (Data l) 0 32),
                 BTCTxID_conf = Bytes2Hex (slice (Data l) 32 64),
                 BTCTimestamp_conf = hashUint64 (slice (Data l) 64 96)\<rparr>)"

fun confirmationInLogs :: "Log list \<Rightarrow> BTCConfirmation option" where
  "confirmationInLogs [] = None"
| "confirmationInLogs (l # ls) =
     (if Address l = copyrightRegistryAddr
      then (case parseOTSConfirmedLog l of
              Some confirmation \<Rightarrow> Some confirmation
            | None \<Rightarrow> confirmationInLogs ls)
      else confirmationInLogs ls)"

fun extractBTCConfirmation :: "Header \<Rightarrow> Receipt list \<Rightarrow> BTCConfirmation option" where
  "extractBTCConfirmation header [] = None"
| "extractBTCConfirmation header (receipt # receipts) =
     (if ReceiptStatus receipt \<noteq> ReceiptStatusSuccessful
      then extractBTCConfirmation header receipts
      else (case confirmationInLogs (Logs receipt) of
              Some confirmation \<Rightarrow> Some confirmation
            | None \<Rightarrow> extractBTCConfirmation header receipts))"

definition isValidAnchorLog :: "Log \<Rightarrow> BatchState \<Rightarrow> bool" where
  "isValidAnchorLog l batch =
     (if length (Topics l) < 2 \<or> Topics l ! 0 \<noteq> anchoredSig then False
      else if Topics l ! 1 \<noteq> RootHash batch then False
      else True)"

fun anchorInLogs :: "Log list \<Rightarrow> BatchState \<Rightarrow> bool" where
  "anchorInLogs [] batch = False"
| "anchorInLogs (l # ls) batch =
     (if Address l = copyrightRegistryAddr \<and> isValidAnchorLog l batch then True
      else anchorInLogs ls batch)"

fun hasValidAnchorTx :: "Header \<Rightarrow> Receipt list \<Rightarrow> BatchState \<Rightarrow> bool" where
  "hasValidAnchorTx header [] batch = False"
| "hasValidAnchorTx header (receipt # receipts) batch =
     (if ReceiptStatus receipt \<noteq> ReceiptStatusSuccessful
      then hasValidAnchorTx header receipts batch
      else if anchorInLogs (Logs receipt) batch then True
      else hasValidAnchorTx header receipts batch)"

subsection \<open>The four rules of applyTransitions\<close>

text \<open>
  \<open>applyTransitions\<close> is four \<open>if\<close> statements in sequence on the same state pointer;
  each is one function here, applied to the state its predecessor left. An error of a
  state operation is only logged, so the state the operation left is kept.
\<close>

definition statusIs :: "OTSState \<Rightarrow> BatchStatus \<Rightarrow> bool" where
  "statusIs state st =
     (case CurrentBatch state of None \<Rightarrow> False | Some b \<Rightarrow> Status b = st)"

definition ruleTrigger :: "TransitionEngine \<Rightarrow> Header \<Rightarrow> OTSState \<Rightarrow> OTSState option" where
  "ruleTrigger te header state =
     (if CanTrigger state \<and> isTriggerBlock te header then handleTrigger te state header
      else Some state)"

definition ruleSubmit :: "Header \<Rightarrow> Receipt list \<Rightarrow> OTSState \<Rightarrow> OTSState" where
  "ruleSubmit header receipts state =
     (if statusIs state BatchStatusTriggered
      then (case extractOTSSubmission header receipts of
              None \<Rightarrow> state
            | Some submission \<Rightarrow>
                snd (MarkSubmitted (Digest submission) (Number header) (Coinbase header) state))
      else state)"

definition ruleConfirm :: "Header \<Rightarrow> Receipt list \<Rightarrow> OTSState \<Rightarrow> OTSState" where
  "ruleConfirm header receipts state =
     (if statusIs state BatchStatusSubmitted
      then (case extractBTCConfirmation header receipts of
              None \<Rightarrow> state
            | Some confirmation \<Rightarrow>
                snd (MarkConfirmed (BTCBlockHeight_conf confirmation) (BTCTxID_conf confirmation)
                       (BTCTimestamp_conf confirmation) (Number header) (Coinbase header) state))
      else state)"

definition ruleAnchor :: "Header \<Rightarrow> Receipt list \<Rightarrow> OTSState \<Rightarrow> OTSState" where
  "ruleAnchor header receipts state =
     (case CurrentBatch state of
        None \<Rightarrow> state
      | Some batch \<Rightarrow>
          if Status batch = BatchStatusConfirmed \<and> hasValidAnchorTx header receipts batch
          then snd (MarkAnchored (Number header) (Coinbase header) state)
          else state)"

definition applyTransitions ::
  "TransitionEngine \<Rightarrow> OTSState \<Rightarrow> Header \<Rightarrow> Receipt list \<Rightarrow> OTSState option"
where
  "applyTransitions te state header receipts =
     (case ruleTrigger te header state of
        None \<Rightarrow> None
      | Some s1 \<Rightarrow>
          Some (ruleAnchor header receipts
                  (ruleConfirm header receipts (ruleSubmit header receipts s1))))"

subsection \<open>ProcessBlock\<close>

text \<open>
  \<open>ProcessBlock\<close> always returns a nil error; it fails to return a snapshot only by
  dereferencing a nil state or by not returning from the trigger. Storing the new
  snapshot in the manager does not change the snapshot returned.
\<close>

definition ProcessBlock :: "TransitionEngine \<Rightarrow> Header \<Rightarrow> Snapshot \<Rightarrow> fault + Snapshot" where
  "ProcessBlock te header parentSnap =
     (case State parentSnap of
        None \<Rightarrow> Inl NilDereference
      | Some newState \<Rightarrow>
          if \<not> Enabled newState then Inr (NewSnapshot (Number header) (Hash header) newState)
          else (case applyTransitions te newState header
                       (getReceipts te (Hash header) (Number header)) of
                  None \<Rightarrow> Inl NoReturn
                | Some s \<Rightarrow> Inr (NewSnapshot (Number header) (Hash header) s)))"

text \<open>
  The snapshots along a chain: the genesis snapshot of a manager, and every snapshot
  that \<open>ProcessBlock\<close> returns for some engine and header on a snapshot of the chain.
\<close>

inductive chainSnapshot :: "Snapshot \<Rightarrow> bool" where
  genesis: "chainSnapshot (GetGenesisSnapshot sm genesisHash)"
| block: "chainSnapshot parent \<Longrightarrow> ProcessBlock te header parent = Inr child \<Longrightarrow>
          chainSnapshot child"

section \<open>systx: the system-transaction codec\<close>

text \<open>
  Of a transaction the codec reads the gas price, the recipient and the calldata.
  \<open>TxFrom\<close> is the sender the host chain recovers from the signature; a
  transaction made by \<open>types.NewTransaction\<close> is unsigned.
\<close>

record Transaction =
  TxNonce :: uint64
  TxTo :: "address option"
  TxValue :: int
  TxGas :: uint64
  TxGasPrice :: int
  TxData :: "byte list"
  TxFrom :: "address option"

definition NewTransaction ::
  "uint64 \<Rightarrow> address \<Rightarrow> int \<Rightarrow> uint64 \<Rightarrow> int \<Rightarrow> byte list \<Rightarrow> Transaction"
where
  "NewTransaction nonce to amount gasLimit gasPrice data =
     \<lparr>TxNonce = nonce, TxTo = Some to, TxValue = amount, TxGas = gasLimit,
      TxGasPrice = gasPrice, TxData = data, TxFrom = None\<rparr>"

subsection \<open>builder.go\<close>

definition anchorSig :: "byte list" where
  "anchorSig = take 4 (Keccak256 (stringBytes ''anchor(uint64,uint64,bytes32,bytes32,uint64)''))"

text \<open>
  The fields of \<open>otstypes.CandidateBatch\<close> (with its embedded \<open>BatchMeta\<close>) that the
  encoder reads.
\<close>

record CandidateBatch_types =
  StartBlock_meta :: uint64
  EndBlock_meta :: uint64
  RootHash_meta :: hash
  BTCTxID_cand :: string
  BTCTimestamp_cand :: uint64

definition btcTxIDToBytes32 :: "string \<Rightarrow> hash" where
  "btcTxIDToBytes32 txid =
     (if txid = [] then 0
      else if length txid \<ge> 2 \<and> take 2 txid = ''0x'' then HexToHash (drop 2 txid)
      else HexToHash txid)"

text \<open>
  \<open>copy(data[offset+32-len(v.Bytes()):offset+32], v.Bytes())\<close> for
  \<open>v = new(big.Int).SetUint64(x)\<close>.
\<close>

definition putUint64 :: "byte list \<Rightarrow> nat \<Rightarrow> uint64 \<Rightarrow> byte list" where
  "putUint64 data offset x =
     (let b = big_Bytes (unat x)
      in copy_into data (offset + 32 - length b) (offset + 32) b)"

definition encodeCalldata :: "CandidateBatch_types \<Rightarrow> byte list" where
  "encodeCalldata candidate =
     (let data0 = replicate (4 + 32 * 5) 0;
          data1 = copy_into data0 0 4 anchorSig;
          data2 = putUint64 data1 4 (StartBlock_meta candidate);
          data3 = putUint64 data2 36 (EndBlock_meta candidate);
          data4 = copy_into data3 68 100 (hashBytes (RootHash_meta candidate));
          data5 = copy_into data4 100 132 (hashBytes (btcTxIDToBytes32 (BTCTxID_cand candidate)))
      in putUint64 data5 132 (BTCTimestamp_cand candidate))"

subsection \<open>validator.go\<close>

record Validator =
  contractAddress :: address

definition ValidateSystemTx :: "Validator \<Rightarrow> Transaction \<Rightarrow> address \<Rightarrow> error option" where
  "ValidateSystemTx v tx coinbase =
     (if TxGasPrice tx \<noteq> 0 then Some ErrNotSystemTx
      else if TxTo tx = None \<or> the (TxTo tx) \<noteq> contractAddress v then Some ErrInvalidRecipient
      else if length (TxData tx) < 4 then Some ErrInvalidCalldata
      else if TxData tx ! 0 \<noteq> anchorSig ! 0 \<or> TxData tx ! 1 \<noteq> anchorSig ! 1 \<or>
              TxData tx ! 2 \<noteq> anchorSig ! 2 \<or> TxData tx ! 3 \<noteq> anchorSig ! 3
        then Some ErrInvalidCalldata
      else None)"

text \<open>\<open>new(big.Int).SetBytes(b).Uint64()\<close> keeps the low 64 bits.\<close>

definition bytesUint64 :: "byte list \<Rightarrow> uint64" where
  "bytesUint64 b = of_nat (big_SetBytes b)"

record DecodedCalldata =
  StartBlock_v :: uint64
  EndBlock_v :: uint64
  BatchRoot_v :: hash
  BTCTxHash_v :: hash
  BTCTimestamp_v :: uint64

definition DecodeCalldata_v :: "Validator \<Rightarrow> byte list \<Rightarrow> error + DecodedCalldata" where
  "DecodeCalldata_v v data =
     (if length data < 4 + 32 * 5 then Inl ErrInvalidCalldata
      else Inr \<lparr>StartBlock_v = bytesUint64 (slice data 4 36),
                EndBlock_v = bytesUint64 (slice data 36 68),
                BatchRoot_v = BytesToHash (slice data 68 100),
                BTCTxHash_v = BytesToHash (slice data 100 132),
                BTCTimestamp_v = bytesUint64 (slice data 132 164)\<rparr>)"

subsection \<open>ots_systx.go\<close>

definition OTSSubmittedSelector :: "byte list" where
  "OTSSubmittedSelector = take 4 (Keccak256 (stringBytes ''otsSubmitted(bytes32,bytes32)''))"

definition OTSConfirmedSelector :: "byte list" where
  "OTSConfirmedSelector =
     take 4 (Keccak256 (stringBytes ''otsConfirmed(bytes32,uint64,bytes32,uint64)''))"

definition anchorSelector :: "byte list" where
  "anchorSelector =
     take 4 (Keccak256 (stringBytes ''anchor(uint64,uint64,bytes32,bytes32,uint64)''))"

record Builder =
  contractAddress_b :: address

record OTSSubmittedParams =
  RootHash_sp :: hash
  OTSDigest_sp :: hash

record OTSConfirmedParams =
  RootHash_cp :: hash
  BTCBlockHeight_cp :: uint64
  BTCTxID_cp :: hash
  BTCTimestamp_cp :: uint64

text \<open>The parameter is a pointer: \<open>None\<close> is nil.\<close>

definition BuildOTSSubmittedTx ::
  "Builder \<Rightarrow> OTSSubmittedParams option \<Rightarrow> address \<Rightarrow> uint64 \<Rightarrow> uint64 \<Rightarrow> error + Transaction"
where
  "BuildOTSSubmittedTx b params coinbase nonce gasLimit =
     (case params of
        None \<Rightarrow> Inl ErrInvalidOTSTx
      | Some p \<Rightarrow>
          (let calldata0 = replicate (4 + 32 + 32) 0;
               calldata1 = copy_into calldata0 0 4 OTSSubmittedSelector;
               calldata2 = copy_into calldata1 4 36 (hashBytes (RootHash_sp p));
               calldata3 = copy_into calldata2 36 68 (hashBytes (OTSDigest_sp p))
           in Inr (NewTransaction nonce (contractAddress_b b) 0 gasLimit 0 calldata3)))"

text \<open>
  \<open>common.BigToHash(big.NewInt(int64(x)))\<close>: the conversion to \<open>int64\<close> reads the word as
  signed, and \<open>BigToHash\<close> takes the bytes of the absolute value.
\<close>

definition BigToHash :: "int \<Rightarrow> hash" where
  "BigToHash x = BytesToHash (big_Bytes (nat \<bar>x\<bar>))"

definition BuildOTSConfirmedTx ::
  "Builder \<Rightarrow> OTSConfirmedParams option \<Rightarrow> address \<Rightarrow> uint64 \<Rightarrow> uint64 \<Rightarrow> error + Transaction"
where
  "BuildOTSConfirmedTx b params coinbase nonce gasLimit =
     (case params of
        None \<Rightarrow> Inl ErrInvalidOTSTx
      | Some p \<Rightarrow>
          (let calldata0 = replicate (4 + 32 + 32 + 32 + 32) 0;
               calldata1 = copy_into calldata0 0 4 OTSConfirmedSelector;
               calldata2 = copy_into calldata1 4 36 (hashBytes (RootHash_cp p));
               btcBlockHeightBytes = BigToHash (sint (BTCBlockHeight_cp p));
               calldata3 = copy_into calldata2 36 68 (hashBytes btcBlockHeightBytes);
               calldata4 = copy_into calldata3 68 100 (hashBytes (BTCTxID_cp p));
               btcTimestampBytes = BigToHash (sint (BTCTimestamp_cp p));
               calldata5 = copy_into calldata4 100 132 (hashBytes btcTimestampBytes)
           in Inr (NewTransaction nonce (contractAddress_b b) 0 gasLimit 0 calldata5)))"

definition matchSelector :: "byte list \<Rightarrow> byte list \<Rightarrow> bool" where
  "matchSelector a b =
     (if length a < 4 \<or> length b < 4 then False
      else a ! 0 = b ! 0 \<and> a ! 1 = b ! 1 \<and> a ! 2 = b ! 2 \<and> a ! 3 = b ! 3)"

definition DecodeOTSSubmittedTx :: "Transaction \<Rightarrow> error + OTSSubmittedParams" where
  "DecodeOTSSubmittedTx tx =
     (let data = TxData tx
      in if length data < 68 then Inl ErrInvalidOTSTx
         else if \<not> matchSelector (slice data 0 4) OTSSubmittedSelector then Inl ErrInvalidOTSTx
         else Inr \<lparr>RootHash_sp = BytesToHash (slice data 4 36),
                   OTSDigest_sp = BytesToHash (slice data 36 68)\<rparr>)"

definition DecodeOTSConfirmedTx :: "Transaction \<Rightarrow> error + OTSConfirmedParams" where
  "DecodeOTSConfirmedTx tx =
     (let data = TxData tx
      in if length data < 132 then Inl ErrInvalidOTSTx
         else if \<not> matchSelector (slice data 0 4) OTSConfirmedSelector then Inl ErrInvalidOTSTx
         else Inr \<lparr>RootHash_cp = BytesToHash (slice data 4 36),
                   BTCBlockHeight_cp = hashUint64 (slice data 36 68),
                   BTCTxID_cp = BytesToHash (slice data 68 100),
                   BTCTimestamp_cp = hashUint64 (slice data 100 132)\<rparr>)"

definition IsOTSSubmittedTx :: "Transaction \<Rightarrow> bool" where
  "IsOTSSubmittedTx tx =
     (let data = TxData tx
      in if length data < 4 then False else matchSelector (slice data 0 4) OTSSubmittedSelector)"

definition IsOTSConfirmedTx :: "Transaction \<Rightarrow> bool" where
  "IsOTSConfirmedTx tx =
     (let data = TxData tx
      in if length data < 4 then False else matchSelector (slice data 0 4) OTSConfirmedSelector)"

definition IsAnchorTx :: "Transaction \<Rightarrow> bool" where
  "IsAnchorTx tx =
     (let data = TxData tx
      in if length data < 4 then False else matchSelector (slice data 0 4) anchorSelector)"

definition IsOTSSystemTx :: "Transaction \<Rightarrow> bool" where
  "IsOTSSystemTx tx = (IsOTSSubmittedTx tx \<or> IsOTSConfirmedTx tx \<or> IsAnchorTx tx)"

text \<open>\<open>BTCBlockHeight\<close> is a field of the struct that \<open>DecodeCalldata\<close> leaves zero.\<close>

record DecodedAnchorCalldata =
  StartBlock_d :: uint64
  EndBlock_d :: uint64
  RootHash_d :: hash
  BTCTxHash_d :: hash
  BTCBlockHeight_d :: uint64
  BTCTimestamp_d :: uint64

definition DecodeCalldata :: "byte list \<Rightarrow> error + DecodedAnchorCalldata" where
  "DecodeCalldata data =
     (if length data < 4 + 32 * 5 then Inl ErrInvalidOTSTx
      else Inr \<lparr>StartBlock_d = bytesUint64 (slice data 4 36),
                EndBlock_d = bytesUint64 (slice data 36 68),
                RootHash_d = BytesToHash (slice data 68 100),
                BTCTxHash_d = BytesToHash (slice data 100 132),
                BTCBlockHeight_d = 0,
                BTCTimestamp_d = bytesUint64 (slice data 132 164)\<rparr>)"

section \<open>consensus/parlia_integration.go: validation of system transactions\<close>

text \<open>Of the manager, validation reads the \<open>enabled\<close> flag and the snapshots.\<close>

record OTSConsensusManager =
  snapshots :: SnapshotManager
  enabled :: bool
  contractAddress_m :: address
  systemTxGasLimit :: uint64

definition validateOTSSubmittedTx :: "Transaction \<Rightarrow> OTSState \<Rightarrow> error option" where
  "validateOTSSubmittedTx tx state =
     (case CurrentBatch state of
        None \<Rightarrow> Some ErrInvalidTransition
      | Some batch \<Rightarrow>
          if Status batch \<noteq> BatchStatusTriggered then Some ErrInvalidTransition
          else (case DecodeOTSSubmittedTx tx of
                  Inl err \<Rightarrow> Some err
                | Inr params \<Rightarrow>
                    if RootHash_sp params \<noteq> RootHash batch then Some ErrInvalidState
                    else None))"

definition validateOTSConfirmedTx :: "Transaction \<Rightarrow> OTSState \<Rightarrow> error option" where
  "validateOTSConfirmedTx tx state =
     (case CurrentBatch state of
        None \<Rightarrow> Some ErrInvalidTransition
      | Some batch \<Rightarrow>
          if Status batch \<noteq> BatchStatusSubmitted then Some ErrInvalidTransition
          else (case DecodeOTSConfirmedTx tx of
                  Inl err \<Rightarrow> Some err
                | Inr params \<Rightarrow>
                    if RootHash_cp params \<noteq> RootHash batch then Some ErrInvalidState
                    else None))"

definition validateAnchorTx :: "Transaction \<Rightarrow> OTSState \<Rightarrow> error option" where
  "validateAnchorTx tx state =
     (case CurrentBatch state of
        None \<Rightarrow> Some ErrInvalidTransition
      | Some batch \<Rightarrow>
          if Status batch \<noteq> BatchStatusConfirmed then Some ErrInvalidTransition
          else (case DecodeCalldata (TxData tx) of
                  Inl err \<Rightarrow> Some err
                | Inr decoded \<Rightarrow>
                    if RootHash_d decoded \<noteq> RootHash batch then Some ErrInvalidState
                    else if StartBlock_d decoded \<noteq> StartBlock batch \<or>
                            EndBlock_d decoded \<noteq> EndBlock batch
                      then Some ErrInvalidState
                    else None))"

text \<open>
  \<open>ValidateOTSSystemTx\<close> returns an error or nil, unless \<open>GetSnapshot\<close> panics.
\<close>

definition ValidateOTSSystemTx ::
  "OTSConsensusManager \<Rightarrow> Transaction \<Rightarrow> hash \<Rightarrow> fault + error option"
where
  "ValidateOTSSystemTx m tx parentHash =
     (if \<not> enabled m then Inr None
      else (case GetSnapshot (snapshots m) parentHash of
              Inl f \<Rightarrow> Inl f
            | Inr (Inl err) \<Rightarrow> Inr (Some err)
            | Inr (Inr snap) \<Rightarrow>
                (case State snap of
                   None \<Rightarrow> Inr (Some ErrInvalidState)
                 | Some state \<Rightarrow>
                     if IsOTSSubmittedTx tx then Inr (validateOTSSubmittedTx tx state)
                     else if IsOTSConfirmedTx tx then Inr (validateOTSConfirmedTx tx state)
                     else if IsAnchorTx tx then Inr (validateAnchorTx tx state)
                     else Inr None)))"

section \<open>The trigger predicate in the words of the specification\<close>

text \<open>
  The specification compares the pair (year, day of the year) of the two timestamps as
  a pair, and calls the days the same when both components agree.
\<close>

definition specTriggerPredicate :: "uint64 \<Rightarrow> uint64 \<Rightarrow> bool" where
  "specTriggerPredicate current parent =
     (((Year current > Year parent \<or>
        (Year current = Year parent \<and> YearDay current > YearDay parent)) \<and>
       Hour current \<ge> TriggerHourUTC) \<or>
      (Year current = Year parent \<and> YearDay current = YearDay parent \<and>
       Hour parent < TriggerHourUTC \<and> Hour current \<ge> TriggerHourUTC))"

text \<open>
  The days in the first \<open>y\<close> years of a cycle of 400 years, of which every fourth year
  is a leap year except the hundredth, two hundredth and three hundredth.
\<close>

definition daysBefore :: "int \<Rightarrow> int" where
  "daysBefore y = 365 * y + y div 4 - y div 100 + y div 400"

section \<open>Chain accessors and snapshot stores for the examples\<close>

text \<open>
  The accessors injected into the engine are functions; the examples use constant
  ones. \<open>testEngine parent receipts\<close> resolves every parent header to \<open>parent\<close> and
  every block's receipts to \<open>receipts\<close>; \<open>orphanEngine receipts\<close> resolves no header.
\<close>

definition testEngine :: "Header \<Rightarrow> Receipt list \<Rightarrow> TransitionEngine" where
  "testEngine parent receipts =
     \<lparr>getReceipts = (\<lambda>h n. receipts), getHeader = (\<lambda>h n. Some parent)\<rparr>"

definition orphanEngine :: "Receipt list \<Rightarrow> TransitionEngine" where
  "orphanEngine receipts = \<lparr>getReceipts = (\<lambda>h n. receipts), getHeader = (\<lambda>h n. None)\<rparr>"

definition emptySnapshots :: SnapshotManager where
  "emptySnapshots = \<lparr>cache = (\<lambda>h. None), db = (\<lambda>h. None), otsEnabled = True\<rparr>"

definition cachedSnapshot :: "Snapshot \<Rightarrow> SnapshotManager" where
  "cachedSnapshot snap =
     \<lparr>cache = (\<lambda>h. if h = SnapHash snap then Some snap else None), db = (\<lambda>h. None),
      otsEnabled = True\<rparr>"

text \<open>A batch as \<open>Trigger\<close> creates it, and the logs of the three events for a root.\<close>

definition triggeredBatch :: "uint64 \<Rightarrow> uint64 \<Rightarrow> hash \<Rightarrow> BatchState" where
  "triggeredBatch startBlock endBlock rootHash =
     \<lparr>StartBlock = startBlock, EndBlock = endBlock, RootHash = rootHash,
      Status = BatchStatusTriggered, TriggerBlock = endBlock + 1, TriggerNode = 0x1234,
      OTSDigest = 0, SubmittedAt = 0, SubmittedBy = 0, BTCBlockHeight = 0, BTCTxID = [],
      BTCTimestamp = 0, ConfirmedAt = 0, ConfirmedBy = 0, AnchoredAt = 0, AnchoredBy = 0\<rparr>"

definition submittedLog :: "hash \<Rightarrow> hash \<Rightarrow> Log" where
  "submittedLog rootHash digest =
     \<lparr>Address = copyrightRegistryAddr, Topics = [otsSubmittedSig, rootHash],
      Data = hashBytes digest\<rparr>"

definition confirmedLog :: "hash \<Rightarrow> hash \<Rightarrow> hash \<Rightarrow> hash \<Rightarrow> Log" where
  "confirmedLog rootHash btcBlockHeight btcTxID btcTimestamp =
     \<lparr>Address = copyrightRegistryAddr, Topics = [otsConfirmedSig, rootHash],
      Data = hashBytes btcBlockHeight @ hashBytes btcTxID @ hashBytes btcTimestamp\<rparr>"

definition anchoredLog :: "hash \<Rightarrow> hash \<Rightarrow> hash \<Rightarrow> hash \<Rightarrow> Log" where
  "anchoredLog rootHash startBlock endBlock btcBlockHeight =
     \<lparr>Address = copyrightRegistryAddr, Topics = [anchoredSig, rootHash],
      Data = hashBytes startBlock @ hashBytes endBlock @ hashBytes btcBlockHeight\<rparr>"

text \<open>
  One block after midnight whose receipts carry all three events for the root of an
  empty range, and the states of a batch over blocks 1 to 2 on its way through them.
\<close>

definition exampleParent :: Header where
  "exampleParent = \<lparr>ParentHash = 0xb1, Coinbase = 0x1234, Number = 2, Time = 0, Hash = 0xb2\<rparr>"

definition exampleHeader :: Header where
  "exampleHeader =
     \<lparr>ParentHash = 0xb2, Coinbase = 0x1234, Number = 3, Time = 86400, Hash = 0xb3\<rparr>"



definition exampleReceipts :: "Receipt list" where
  "exampleReceipts =
     [\<lparr>ReceiptStatus = ReceiptStatusSuccessful,
       Logs = [submittedLog 0 0xaabb, confirmedLog 0 800000 0x7478 1700000000,
               anchoredLog 0 1 2 800000]\<rparr>]"

definition exampleTriggered :: OTSState where
  "exampleTriggered =
     \<lparr>Enabled = True, LastAnchoredBlock = 0, CurrentBatch = Some (triggeredBatch 1 2 0)\<rparr>"

definition exampleSubmitted :: OTSState where
  "exampleSubmitted =
     \<lparr>Enabled = True, LastAnchoredBlock = 0,
      CurrentBatch = Some ((triggeredBatch 1 2 0)
        \<lparr>OTSDigest := 0xaabb, SubmittedAt := 3, SubmittedBy := 0x1234,
         Status := BatchStatusSubmitted\<rparr>)\<rparr>"

definition exampleConfirmed :: OTSState where
  "exampleConfirmed =
     \<lparr>Enabled = True, LastAnchoredBlock = 0,
      CurrentBatch = Some ((triggeredBatch 1 2 0)
        \<lparr>OTSDigest := 0xaabb, SubmittedAt := 3, SubmittedBy := 0x1234,
         BTCBlockHeight := 800000, BTCTxID := Bytes2Hex (hashBytes 0x7478),
         BTCTimestamp := 1700000000, ConfirmedAt := 3, ConfirmedBy := 0x1234,
         Status := BatchStatusConfirmed\<rparr>)\<rparr>"

definition exampleAnchored :: OTSState where
  "exampleAnchored = \<lparr>Enabled = True, LastAnchoredBlock = 2, CurrentBatch = None\<rparr>"

text \<open>A receipt whose OTSSubmitted event names root 1, not the root 0 of the batch.\<close>

definition mismatchedReceipts :: "Receipt list" where
  "mismatchedReceipts =
     [\<lparr>ReceiptStatus = ReceiptStatusSuccessful, Logs = [submittedLog 1 0xaabb]\<rparr>]"

text \<open>A manager whose snapshot for block \<open>0xb2\<close> holds the triggered batch.\<close>

definition exampleManager :: OTSConsensusManager where
  "exampleManager =
     \<lparr>snapshots = cachedSnapshot (NewSnapshot 2 0xb2 exampleTriggered), enabled = True,
      contractAddress_m = 0x9000, systemTxGasLimit = 100000\<rparr>"

definition emptyManager :: OTSConsensusManager where
  "emptyManager =
     \<lparr>snapshots = emptySnapshots, enabled = True, contractAddress_m = 0x9000,
      systemTxGasLimit = 100000\<rparr>"

text \<open>
  A manager whose database holds, for block \<open>0xb2\<close>, a snapshot decoded with a nil
  state (the JSON field \<open>state\<close> absent or null).
\<close>

definition nilStateManager :: OTSConsensusManager where
  "nilStateManager =
     \<lparr>snapshots =
        \<lparr>cache = (\<lambda>h. None),
         db = (\<lambda>h. if h = 0xb2
                   then Some (Inr \<lparr>SnapNumber = 2, SnapHash = 0xb2, State = None\<rparr>)
                   else None),
         otsEnabled = True\<rparr>,
      enabled = True, contractAddress_m = 0x9000, systemTxGasLimit = 100000\<rparr>"

text \<open>
  An otsSubmitted transaction for root 0 sent by \<open>0x5678\<close>, which is not the coinbase
  \<open>0x1234\<close> of the example blocks, and a plain transfer without calldata.
\<close>

definition strangerSubmittedTx :: Transaction where
  "strangerSubmittedTx =
     (NewTransaction 0 0x9000 0 100000 0 (OTSSubmittedSelector @ hashBytes 0 @ hashBytes 0xaabb))
       \<lparr>TxFrom := Some 0x5678\<rparr>"

definition plainTx :: Transaction where
  "plainTx = NewTransaction 0 0x7777 1 21000 1 []"

section \<open>What validation expects of a recognized transaction\<close>

text \<open>
  The root hash in the calldata of a recognized transaction (the first parameter of
  otsSubmitted and otsConfirmed, the third of anchor), and the batch status its
  selector stands for.
\<close>

definition decodedRootHash :: "Transaction \<Rightarrow> hash" where
  "decodedRootHash tx =
     (if IsOTSSubmittedTx tx \<or> IsOTSConfirmedTx tx then BytesToHash (slice (TxData tx) 4 36)
      else BytesToHash (slice (TxData tx) 68 100))"

definition expectedStatus :: "Transaction \<Rightarrow> BatchStatus" where
  "expectedStatus tx =
     (if IsOTSSubmittedTx tx then BatchStatusTriggered
      else if IsOTSConfirmedTx tx then BatchStatusSubmitted
      else BatchStatusConfirmed)"

section \<open>The invariant behind the order of anchored blocks\<close>

text \<open>
  Neither the last anchored block nor the end of the current batch is the largest
  \<open>uint64\<close>, and the current batch ends at or after the last anchored block.
\<close>

definition endBlockAhead :: "OTSState \<Rightarrow> bool" where
  "endBlockAhead s =
     (LastAnchoredBlock s \<noteq> - 1 \<and>
      (case CurrentBatch s of
         None \<Rightarrow> True
       | Some b \<Rightarrow> EndBlock b \<noteq> - 1 \<and> LastAnchoredBlock s \<le> EndBlock b))"

section \<open>The transitions the state operations ask for\<close>

lemma CanTransitionTo_next [simp]:
  "CanTransitionTo BatchStatusNone BatchStatusTriggered"
  "CanTransitionTo BatchStatusTriggered BatchStatusSubmitted"
  "CanTransitionTo BatchStatusSubmitted BatchStatusConfirmed"
  "CanTransitionTo BatchStatusConfirmed BatchStatusAnchored"
  "CanTransitionTo BatchStatusConfirmed BatchStatusNone"
  "CanTransitionTo BatchStatusAnchored BatchStatusNone"
  by (simp_all add: CanTransitionTo_def)

section \<open>Byte encodings\<close>

lemma big_SetBytes_snoc: "big_SetBytes (bs @ [b]) = 256 * big_SetBytes bs + unat b"
  by (simp add: big_SetBytes_def)

lemma big_SetBytes_Cons0: "big_SetBytes (0 # bs) = big_SetBytes bs"
proof (induction bs rule: rev_induct)
  case Nil
  show ?case by (simp add: big_SetBytes_def)
next
  case (snoc b bs)
  have "big_SetBytes (0 # bs @ [b]) = big_SetBytes ((0 # bs) @ [b])" by simp
  also have "\<dots> = 256 * big_SetBytes (0 # bs) + unat b" by (rule big_SetBytes_snoc)
  finally show ?case using snoc by (simp add: big_SetBytes_snoc)
qed

lemma big_SetBytes_zeros: "big_SetBytes (replicate k 0 @ bs) = big_SetBytes bs"
  by (induction k) (simp_all add: big_SetBytes_Cons0)

lemma big_SetBytes_Bytes: "big_SetBytes (big_Bytes n) = n"
proof (induction n rule: big_Bytes.induct)
  case (1 n)
  show ?case
  proof (cases "n = 0")
    case True
    then show ?thesis by (simp add: big_Bytes.simps big_SetBytes_def)
  next
    case False
    have m: "unat (of_nat (n mod 256) :: byte) = n mod 256"
      by (simp add: unat_of_nat)
    from False have "big_Bytes n = big_Bytes (n div 256) @ [of_nat (n mod 256)]"
      by (subst big_Bytes.simps) simp
    then have "big_SetBytes (big_Bytes n) = 256 * big_SetBytes (big_Bytes (n div 256)) + n mod 256"
      by (simp add: big_SetBytes_snoc m)
    with 1 False show ?thesis by simp
  qed
qed

lemma length_big_Bytes: "n < 256 ^ k \<Longrightarrow> length (big_Bytes n) \<le> k"
proof (induction n arbitrary: k rule: big_Bytes.induct)
  case (1 n)
  show ?case
  proof (cases "n = 0")
    case True
    then show ?thesis by (simp add: big_Bytes.simps)
  next
    case False
    with 1(2) obtain j where k: "k = Suc j" by (cases k) auto
    from 1(2) k have "n div 256 < 256 ^ j"
      by (simp add: less_mult_imp_div_less mult.commute)
    with 1(1) False have "length (big_Bytes (n div 256)) \<le> j" by blast
    moreover from False have "big_Bytes n = big_Bytes (n div 256) @ [of_nat (n mod 256)]"
      by (subst big_Bytes.simps) simp
    ultimately show ?thesis using k by simp
  qed
qed

lemma length_big_Bytes_uint64: "length (big_Bytes (unat (x :: uint64))) \<le> 8"
proof -
  have "unat x < 2 ^ 64" using unsigned_less [of x, where ?'a = nat] by simp
  then have "unat x < 256 ^ 8" by simp
  then show ?thesis by (rule length_big_Bytes)
qed

lemma length_big_Bytes_hash: "length (big_Bytes (unat (h :: hash))) \<le> 32"
proof -
  have "unat h < 2 ^ 256" using unsigned_less [of h, where ?'a = nat] by simp
  then have "unat h < 256 ^ 32" by simp
  then show ?thesis by (rule length_big_Bytes)
qed

lemma length_leftPad: "length bs \<le> n \<Longrightarrow> length (leftPad n bs) = n"
  by (simp add: leftPad_def)

lemma length_hashBytes [simp]: "length (hashBytes h) = 32"
  by (simp add: hashBytes_def length_leftPad length_big_Bytes_hash)

lemma big_SetBytes_leftPad: "big_SetBytes (leftPad n bs) = big_SetBytes bs"
  by (simp add: leftPad_def big_SetBytes_zeros)

lemma BytesToHash_hashBytes [simp]: "BytesToHash (hashBytes h) = h"
  by (simp add: BytesToHash_def hashBytes_def big_SetBytes_leftPad big_SetBytes_Bytes)

lemma bytesUint64_leftPad: "bytesUint64 (leftPad n (big_Bytes (unat x))) = x"
  by (simp add: bytesUint64_def big_SetBytes_leftPad big_SetBytes_Bytes)

text \<open>Copying into a buffer whose target region is known.\<close>

lemma copy_into_exact:
  assumes "length pre = lo" and "hi = lo + length src" and "length mid = length src"
  shows "copy_into (pre @ mid @ post) lo hi src = pre @ src @ post"
  using assms by (simp add: copy_into_def)

lemma putUint64_slot:
  assumes "length pre = offset"
  shows "putUint64 (pre @ replicate 32 0 @ post) offset x =
           pre @ leftPad 32 (big_Bytes (unat x)) @ post"
proof -
  let ?b = "big_Bytes (unat x)"
  have len: "length ?b \<le> 32" using length_big_Bytes_uint64 [of x] by simp
  then have split: "replicate 32 (0 :: byte) =
      replicate (32 - length ?b) 0 @ replicate (length ?b) 0"
    by (simp add: replicate_add [symmetric])
  have "copy_into ((pre @ replicate (32 - length ?b) 0) @ replicate (length ?b) 0 @ post)
          (offset + 32 - length ?b) (offset + 32) ?b =
        (pre @ replicate (32 - length ?b) 0) @ ?b @ post"
    using assms len by (intro copy_into_exact) simp_all
  then show ?thesis
    by (simp add: putUint64_def leftPad_def Let_def split)
qed

lemma copy_into_slot:
  assumes "length pre = lo" and "hi = lo + length src"
  shows "copy_into (pre @ replicate (length src) 0 @ post) lo hi src = pre @ src @ post"
  using assms by (intro copy_into_exact) simp_all

section \<open>Evaluating Keccak-256\<close>

lemma replicate_numeral: "replicate (numeral k) x = x # replicate (pred_numeral k) x"
  by (simp add: numeral_eq_Suc)

lemmas keccak_eval = keccak_round_def rotl64_def round_constants_def keccak_f_def zero_lane_def
  block_state_def pad101_def zero_row_def zero_state_def Keccak256_def replicate_numeral Let_def
  stringBytes_def

lemma Keccak256_anchor:
  "Keccak256 (stringBytes ''anchor(uint64,uint64,bytes32,bytes32,uint64)'') =
     [0xa0, 0x51, 0x4e, 0xfe, 0xae, 0xb2, 0x00, 0x89, 0x88, 0x8b, 0xeb, 0x06, 0x21, 0x30,
      0xef, 0x7b, 0x6e, 0xdf, 0x21, 0x3c, 0x6b, 0x5a, 0xe1, 0x97, 0xcd, 0x0c, 0x46, 0x08,
      0xbc, 0xbf, 0x29, 0x08]"
  by (simp add: keccak_eval)

lemma Keccak256_otsSubmitted:
  "Keccak256 (stringBytes ''otsSubmitted(bytes32,bytes32)'') =
     [0x9c, 0xb2, 0x30, 0xed, 0xc4, 0x95, 0xf1, 0xfa, 0xf0, 0x89, 0x7d, 0xe9, 0xe3, 0x95,
      0xd2, 0xba, 0xb0, 0xf6, 0x37, 0xbb, 0x99, 0x56, 0x08, 0xf8, 0x18, 0xa8, 0xe3, 0x2c,
      0x56, 0xfc, 0xbe, 0xbb]"
  by (simp add: keccak_eval)

lemma Keccak256_otsConfirmed:
  "Keccak256 (stringBytes ''otsConfirmed(bytes32,uint64,bytes32,uint64)'') =
     [0x46, 0xba, 0xb7, 0x05, 0xe2, 0x9b, 0x3d, 0x03, 0x29, 0xc2, 0xf6, 0x46, 0xe0, 0xe2,
      0x65, 0x78, 0x26, 0xc5, 0xd1, 0x7d, 0x54, 0x76, 0xe9, 0xef, 0x00, 0x71, 0x7d, 0x4d,
      0x96, 0xbd, 0x9d, 0x57]"
  by (simp add: keccak_eval)

lemma Keccak256_OTSSubmitted_event:
  "Keccak256 (stringBytes ''OTSSubmitted(bytes32,bytes32)'') =
     [0xc2, 0x68, 0xf8, 0x96, 0x3d, 0x53, 0x32, 0x38, 0xf8, 0x5d, 0x1f, 0x06, 0x38, 0x02,
      0xc4, 0x5e, 0xd4, 0xf5, 0xc0, 0x89, 0x0d, 0x17, 0x6d, 0x90, 0xde, 0x8b, 0x49, 0x50,
      0x33, 0x08, 0x91, 0xe0]"
  by (simp add: keccak_eval)

lemma Keccak256_OTSConfirmed_event:
  "Keccak256 (stringBytes ''OTSConfirmed(bytes32,uint64,bytes32,uint64)'') =
     [0x25, 0xb9, 0x8f, 0x80, 0x1a, 0x5d, 0xeb, 0x2b, 0x57, 0x64, 0x2f, 0xf4, 0x13, 0xc8,
      0x4d, 0x98, 0x7d, 0x2d, 0xd5, 0x1e, 0x43, 0xf7, 0x6c, 0x21, 0x29, 0x9a, 0x62, 0x26,
      0xdd, 0x1e, 0x63, 0x0c]"
  by (simp add: keccak_eval)

lemma Keccak256_Anchored_event:
  "Keccak256 (stringBytes ''Anchored(bytes32,uint64,uint64,uint64)'') =
     [0xc7, 0xb7, 0x65, 0x74, 0x85, 0xe9, 0x49, 0xaf, 0xa7, 0xf1, 0x39, 0xbf, 0x44, 0x12,
      0xdd, 0x0b, 0x48, 0x1a, 0xa3, 0x9f, 0x92, 0x43, 0x64, 0x3f, 0xaf, 0x8f, 0x26, 0x03,
      0xea, 0x9c, 0x83, 0x68]"
  by (simp add: keccak_eval)

lemma Keccak256_zero_ruid:
  "Keccak256 (replicate 32 0) =
     [0x29, 0x0d, 0xec, 0xd9, 0x54, 0x8b, 0x62, 0xa8, 0xd6, 0x03, 0x45, 0xa9, 0x88, 0x38,
      0x6f, 0xc8, 0x4b, 0xa6, 0xbc, 0x95, 0x48, 0x40, 0x08, 0xf6, 0x36, 0x2f, 0x93, 0x16,
      0x0e, 0xf3, 0xe5, 0x63]"
  by (simp add: keccak_eval)

lemma Keccak256_zero_leaf_pair:
  "Keccak256
     [0x29, 0x0d, 0xec, 0xd9, 0x54, 0x8b, 0x62, 0xa8, 0xd6, 0x03, 0x45, 0xa9, 0x88, 0x38,
      0x6f, 0xc8, 0x4b, 0xa6, 0xbc, 0x95, 0x48, 0x40, 0x08, 0xf6, 0x36, 0x2f, 0x93, 0x16,
      0x0e, 0xf3, 0xe5, 0x63, 0x29, 0x0d, 0xec, 0xd9, 0x54, 0x8b, 0x62, 0xa8, 0xd6, 0x03,
      0x45, 0xa9, 0x88, 0x38, 0x6f, 0xc8, 0x4b, 0xa6, 0xbc, 0x95, 0x48, 0x40, 0x08, 0xf6,
      0x36, 0x2f, 0x93, 0x16, 0x0e, 0xf3, 0xe5, 0x63] =
     [0x63, 0x3d, 0xc4, 0xd7, 0xda, 0x72, 0x56, 0x66, 0x0a, 0x89, 0x2f, 0x8f, 0x16, 0x04,
      0xa4, 0x4b, 0x54, 0x32, 0x64, 0x9c, 0xc8, 0xec, 0x5c, 0xb3, 0xce, 0xd4, 0xc4, 0xe6,
      0xac, 0x94, 0xdd, 0x1d]"
  by (simp add: keccak_eval)

section \<open>Selectors and event signatures\<close>

lemma anchorSig_eq: "anchorSig = [0xa0, 0x51, 0x4e, 0xfe]"
  by (simp add: anchorSig_def Keccak256_anchor)

lemma anchorSelector_eq: "anchorSelector = [0xa0, 0x51, 0x4e, 0xfe]"
  by (simp add: anchorSelector_def Keccak256_anchor)

lemma OTSSubmittedSelector_eq: "OTSSubmittedSelector = [0x9c, 0xb2, 0x30, 0xed]"
  by (simp add: OTSSubmittedSelector_def Keccak256_otsSubmitted)

lemma OTSConfirmedSelector_eq: "OTSConfirmedSelector = [0x46, 0xba, 0xb7, 0x05]"
  by (simp add: OTSConfirmedSelector_def Keccak256_otsConfirmed)

lemma otsSubmittedSig_eq:
  "otsSubmittedSig = 0xc268f8963d533238f85d1f063802c45ed4f5c0890d176d90de8b4950330891e0"
  by (simp add: otsSubmittedSig_def Keccak256Hash_def Keccak256_OTSSubmitted_event
        BytesToHash_def big_SetBytes_def)

lemma otsConfirmedSig_eq:
  "otsConfirmedSig = 0x25b98f801a5deb2b57642ff413c84d987d2dd51e43f76c21299a6226dd1e630c"
  by (simp add: otsConfirmedSig_def Keccak256Hash_def Keccak256_OTSConfirmed_event
        BytesToHash_def big_SetBytes_def)

lemma anchoredSig_eq:
  "anchoredSig = 0xc7b7657485e949afa7f139bf4412dd0b481aa39f9243643faf8f2603ea9c8368"
  by (simp add: anchoredSig_def Keccak256Hash_def Keccak256_Anchored_event
        BytesToHash_def big_SetBytes_def)

lemma take4_eq:
  assumes "4 \<le> length xs"
  shows "(take 4 xs = [a, b, c, d]) = (xs ! 0 = a \<and> xs ! 1 = b \<and> xs ! 2 = c \<and> xs ! 3 = d)"
proof -
  from assms obtain x0 r0 where 0: "xs = x0 # r0" by (cases xs) auto
  with assms obtain x1 r1 where 1: "r0 = x1 # r1" by (cases r0) auto
  with assms 0 obtain x2 r2 where 2: "r1 = x2 # r2" by (cases r1) auto
  with assms 0 1 obtain x3 r3 where 3: "r2 = x3 # r3" by (cases r2) auto
  show ?thesis by (simp add: 0 1 2 3)
qed

lemma matchSelector_take4:
  assumes "4 \<le> length data" and "sel = [a, b, c, d]"
  shows "matchSelector (slice data 0 4) sel = (take 4 data = sel)"
proof -
  from assms(1) obtain x0 r0 where 0: "data = x0 # r0" by (cases data) auto
  with assms(1) obtain x1 r1 where 1: "r0 = x1 # r1" by (cases r0) auto
  with assms(1) 0 obtain x2 r2 where 2: "r1 = x2 # r2" by (cases r1) auto
  with assms(1) 0 1 obtain x3 r3 where 3: "r2 = x3 # r3" by (cases r2) auto
  show ?thesis by (simp add: 0 1 2 3 assms(2) matchSelector_def slice_def)
qed

section \<open>Calldata layouts\<close>

lemma slice_mid:
  assumes "length pre = lo" and "hi = lo + length mid"
  shows "slice (pre @ mid @ post) lo hi = mid"
  using assms by (simp add: slice_def)

lemma slice_first:
  assumes "hi = length mid"
  shows "slice (mid @ post) 0 hi = mid"
  using assms by (simp add: slice_def)

lemma length_leftPad_uint64 [simp]: "length (leftPad 32 (big_Bytes (unat (x :: uint64)))) = 32"
  using length_big_Bytes_uint64 [of x] by (simp add: length_leftPad)

lemma zeros_164:
  "replicate (4 + 32 * 5) (0 :: byte) =
     replicate 4 0 @ replicate 32 0 @ replicate 32 0 @ replicate 32 0 @ replicate 32 0 @
     replicate 32 0"
  by (simp add: replicate_add [symmetric])

lemma encodeCalldata_layout:
  "encodeCalldata c =
     anchorSig @ leftPad 32 (big_Bytes (unat (StartBlock_meta c))) @
     leftPad 32 (big_Bytes (unat (EndBlock_meta c))) @ hashBytes (RootHash_meta c) @
     hashBytes (btcTxIDToBytes32 (BTCTxID_cand c)) @
     leftPad 32 (big_Bytes (unat (BTCTimestamp_cand c)))"
proof -
  let ?z = "replicate 32 (0 :: byte)"
  let ?s = "leftPad 32 (big_Bytes (unat (StartBlock_meta c)))"
  let ?e = "leftPad 32 (big_Bytes (unat (EndBlock_meta c)))"
  let ?r = "hashBytes (RootHash_meta c)"
  let ?b = "hashBytes (btcTxIDToBytes32 (BTCTxID_cand c))"
  let ?t = "leftPad 32 (big_Bytes (unat (BTCTimestamp_cand c)))"
  have sig: "length anchorSig = 4" by (simp add: anchorSig_eq)
  have 1: "copy_into (replicate 4 0 @ ?z @ ?z @ ?z @ ?z @ ?z) 0 4 anchorSig =
             anchorSig @ ?z @ ?z @ ?z @ ?z @ ?z"
    using copy_into_exact [of "[]" 0 4 anchorSig "replicate 4 0" "?z @ ?z @ ?z @ ?z @ ?z"] sig
    by simp
  have 2: "putUint64 (anchorSig @ ?z @ ?z @ ?z @ ?z @ ?z) 4 (StartBlock_meta c) =
             anchorSig @ ?s @ ?z @ ?z @ ?z @ ?z"
    using putUint64_slot [of anchorSig 4 "?z @ ?z @ ?z @ ?z"] sig by simp
  have 3: "putUint64 (anchorSig @ ?s @ ?z @ ?z @ ?z @ ?z) 36 (EndBlock_meta c) =
             anchorSig @ ?s @ ?e @ ?z @ ?z @ ?z"
    using putUint64_slot [of "anchorSig @ ?s" 36 "?z @ ?z @ ?z"] sig by simp
  have 4: "copy_into (anchorSig @ ?s @ ?e @ ?z @ ?z @ ?z) 68 100 ?r =
             anchorSig @ ?s @ ?e @ ?r @ ?z @ ?z"
    using copy_into_exact [of "anchorSig @ ?s @ ?e" 68 100 ?r ?z "?z @ ?z"] sig by simp
  have 5: "copy_into (anchorSig @ ?s @ ?e @ ?r @ ?z @ ?z) 100 132 ?b =
             anchorSig @ ?s @ ?e @ ?r @ ?b @ ?z"
    using copy_into_exact [of "anchorSig @ ?s @ ?e @ ?r" 100 132 ?b ?z ?z] sig by simp
  have 6: "putUint64 (anchorSig @ ?s @ ?e @ ?r @ ?b @ ?z) 132 (BTCTimestamp_cand c) =
             anchorSig @ ?s @ ?e @ ?r @ ?b @ ?t"
    using putUint64_slot [of "anchorSig @ ?s @ ?e @ ?r @ ?b" 132 "[]"] sig by simp
  show ?thesis
    unfolding encodeCalldata_def Let_def zeros_164 1 2 3 4 5 6 ..
qed

lemma layout6:
  assumes "length s = 4" and "length a = 32" and "length b = 32" and "length c = 32"
    and "length d = 32" and "length e = 32"
  shows "length (s @ a @ b @ c @ d @ e) = 164"
    and "slice (s @ a @ b @ c @ d @ e) 0 4 = s"
    and "slice (s @ a @ b @ c @ d @ e) 4 36 = a"
    and "slice (s @ a @ b @ c @ d @ e) 36 68 = b"
    and "slice (s @ a @ b @ c @ d @ e) 68 100 = c"
    and "slice (s @ a @ b @ c @ d @ e) 100 132 = d"
    and "slice (s @ a @ b @ c @ d @ e) 132 164 = e"
  using assms by (simp_all add: slice_def)

lemma layout5:
  assumes "length s = 4" and "length a = 32" and "length b = 32" and "length c = 32"
    and "length d = 32"
  shows "length (s @ a @ b @ c @ d) = 132"
    and "slice (s @ a @ b @ c @ d) 0 4 = s"
    and "slice (s @ a @ b @ c @ d) 4 36 = a"
    and "slice (s @ a @ b @ c @ d) 36 68 = b"
    and "slice (s @ a @ b @ c @ d) 68 100 = c"
    and "slice (s @ a @ b @ c @ d) 100 132 = d"
  using assms by (simp_all add: slice_def)

lemma layout3:
  assumes "length s = 4" and "length a = 32" and "length b = 32"
  shows "length (s @ a @ b) = 68"
    and "slice (s @ a @ b) 0 4 = s"
    and "slice (s @ a @ b) 4 36 = a"
    and "slice (s @ a @ b) 36 68 = b"
  using assms by (simp_all add: slice_def)

section \<open>Round trips of the three calldata shapes\<close>

lemma anchor_roundtrip:
  "DecodeCalldata (encodeCalldata c) =
     Inr \<lparr>StartBlock_d = StartBlock_meta c, EndBlock_d = EndBlock_meta c,
          RootHash_d = RootHash_meta c, BTCTxHash_d = btcTxIDToBytes32 (BTCTxID_cand c),
          BTCBlockHeight_d = 0, BTCTimestamp_d = BTCTimestamp_cand c\<rparr>"
proof -
  have sig: "length anchorSig = 4" by (simp add: anchorSig_eq)
  note l = layout6 [OF sig length_leftPad_uint64 length_leftPad_uint64 length_hashBytes
      length_hashBytes length_leftPad_uint64]
  show ?thesis
    unfolding DecodeCalldata_def encodeCalldata_layout
    by (simp only: l bytesUint64_leftPad BytesToHash_hashBytes) simp
qed

lemma zeros_68:
  "replicate (4 + 32 + 32) (0 :: byte) = replicate 4 0 @ replicate 32 0 @ replicate 32 0"
  by (simp add: replicate_add [symmetric])

lemma BuildOTSSubmittedTx_layout:
  "BuildOTSSubmittedTx b (Some p) coinbase nonce gasLimit =
     Inr (NewTransaction nonce (contractAddress_b b) 0 gasLimit 0
            (OTSSubmittedSelector @ hashBytes (RootHash_sp p) @ hashBytes (OTSDigest_sp p)))"
proof -
  let ?z = "replicate 32 (0 :: byte)"
  let ?r = "hashBytes (RootHash_sp p)"
  let ?d = "hashBytes (OTSDigest_sp p)"
  have sel: "length OTSSubmittedSelector = 4" by (simp add: OTSSubmittedSelector_eq)
  have 1: "copy_into (replicate 4 0 @ ?z @ ?z) 0 4 OTSSubmittedSelector =
             OTSSubmittedSelector @ ?z @ ?z"
    using copy_into_exact [of "[]" 0 4 OTSSubmittedSelector "replicate 4 0" "?z @ ?z"] sel
    by simp
  have 2: "copy_into (OTSSubmittedSelector @ ?z @ ?z) 4 36 ?r = OTSSubmittedSelector @ ?r @ ?z"
    using copy_into_exact [of OTSSubmittedSelector 4 36 ?r ?z ?z] sel by simp
  have 3: "copy_into (OTSSubmittedSelector @ ?r @ ?z) 36 68 ?d = OTSSubmittedSelector @ ?r @ ?d"
    using copy_into_exact [of "OTSSubmittedSelector @ ?r" 36 68 ?d ?z "[]"] sel by simp
  show ?thesis
    unfolding BuildOTSSubmittedTx_def option.case Let_def zeros_68 1 2 3 ..
qed

lemma otsSubmitted_roundtrip:
  assumes "BuildOTSSubmittedTx b (Some p) coinbase nonce gasLimit = Inr tx"
  shows "DecodeOTSSubmittedTx tx = Inr p"
proof -
  have sel: "length OTSSubmittedSelector = 4" by (simp add: OTSSubmittedSelector_eq)
  note l = layout3 [OF sel length_hashBytes length_hashBytes]
  from assms have data: "TxData tx =
      OTSSubmittedSelector @ hashBytes (RootHash_sp p) @ hashBytes (OTSDigest_sp p)"
    by (auto simp: BuildOTSSubmittedTx_layout NewTransaction_def)
  have m: "matchSelector OTSSubmittedSelector OTSSubmittedSelector"
    by (simp add: matchSelector_def OTSSubmittedSelector_eq)
  show ?thesis
    unfolding DecodeOTSSubmittedTx_def data Let_def
    by (simp only: l m BytesToHash_hashBytes) simp
qed

lemma zeros_132:
  "replicate (4 + 32 + 32 + 32 + 32) (0 :: byte) =
     replicate 4 0 @ replicate 32 0 @ replicate 32 0 @ replicate 32 0 @ replicate 32 0"
  by (simp add: replicate_add [symmetric])

lemma BuildOTSConfirmedTx_layout:
  "BuildOTSConfirmedTx b (Some p) coinbase nonce gasLimit =
     Inr (NewTransaction nonce (contractAddress_b b) 0 gasLimit 0
            (OTSConfirmedSelector @ hashBytes (RootHash_cp p) @
             hashBytes (BigToHash (sint (BTCBlockHeight_cp p))) @ hashBytes (BTCTxID_cp p) @
             hashBytes (BigToHash (sint (BTCTimestamp_cp p)))))"
proof -
  let ?z = "replicate 32 (0 :: byte)"
  let ?s = OTSConfirmedSelector
  let ?r = "hashBytes (RootHash_cp p)"
  let ?h = "hashBytes (BigToHash (sint (BTCBlockHeight_cp p)))"
  let ?i = "hashBytes (BTCTxID_cp p)"
  let ?t = "hashBytes (BigToHash (sint (BTCTimestamp_cp p)))"
  have sel: "length ?s = 4" by (simp add: OTSConfirmedSelector_eq)
  have 1: "copy_into (replicate 4 0 @ ?z @ ?z @ ?z @ ?z) 0 4 ?s = ?s @ ?z @ ?z @ ?z @ ?z"
    using copy_into_exact [of "[]" 0 4 ?s "replicate 4 0" "?z @ ?z @ ?z @ ?z"] sel by simp
  have 2: "copy_into (?s @ ?z @ ?z @ ?z @ ?z) 4 36 ?r = ?s @ ?r @ ?z @ ?z @ ?z"
    using copy_into_exact [of ?s 4 36 ?r ?z "?z @ ?z @ ?z"] sel by simp
  have 3: "copy_into (?s @ ?r @ ?z @ ?z @ ?z) 36 68 ?h = ?s @ ?r @ ?h @ ?z @ ?z"
    using copy_into_exact [of "?s @ ?r" 36 68 ?h ?z "?z @ ?z"] sel by simp
  have 4: "copy_into (?s @ ?r @ ?h @ ?z @ ?z) 68 100 ?i = ?s @ ?r @ ?h @ ?i @ ?z"
    using copy_into_exact [of "?s @ ?r @ ?h" 68 100 ?i ?z ?z] sel by simp
  have 5: "copy_into (?s @ ?r @ ?h @ ?i @ ?z) 100 132 ?t = ?s @ ?r @ ?h @ ?i @ ?t"
    using copy_into_exact [of "?s @ ?r @ ?h @ ?i" 100 132 ?t ?z "[]"] sel by simp
  show ?thesis
    unfolding BuildOTSConfirmedTx_def option.case Let_def zeros_132 1 2 3 4 5 ..
qed

text \<open>
  What a \<open>uint64\<close> becomes on its way through \<open>big.NewInt(int64(x))\<close>, \<open>BigToHash\<close> and
  back through \<open>Big().Uint64()\<close>: its negation when the top bit is set.
\<close>

lemma hashUint64_BigToHash:
  "hashUint64 (hashBytes (BigToHash (sint (x :: uint64)))) = (if sint x < 0 then - x else x)"
proof -
  have bound: "nat \<bar>sint x\<bar> < 2 ^ 256"
  proof -
    have "\<bar>sint x\<bar> \<le> 2 ^ 63"
      using sint_ge [of x] sint_lt [of x] by simp
    also have "\<dots> < (2 :: int) ^ 256" by simp
    finally show ?thesis by (simp add: nat_less_iff)
  qed
  have u: "unat (of_nat (nat \<bar>sint x\<bar>) :: hash) = nat \<bar>sint x\<bar>"
    using bound by (subst unat_of_nat) simp
  have c: "(of_nat (nat \<bar>sint x\<bar>) :: uint64) = (if sint x < 0 then - x else x)"
  proof (cases "sint x < 0")
    case True
    then have "(of_nat (nat \<bar>sint x\<bar>) :: uint64) = of_int (- sint x)"
      by (simp add: of_nat_nat)
    then show ?thesis using True by simp
  next
    case False
    then have "(of_nat (nat \<bar>sint x\<bar>) :: uint64) = of_int (sint x)"
      by (simp add: of_nat_nat)
    then show ?thesis using False by simp
  qed
  have "hashUint64 (hashBytes (BigToHash (sint x))) =
          (of_nat (unat (of_nat (nat \<bar>sint x\<bar>) :: hash)) :: uint64)"
    unfolding hashUint64_def BigToHash_def BytesToHash_hashBytes
    unfolding BytesToHash_def big_SetBytes_Bytes ..
  then show ?thesis by (simp only: u c)
qed

lemma otsConfirmed_decode_encode:
  assumes "BuildOTSConfirmedTx b (Some p) coinbase nonce gasLimit = Inr tx"
  shows "DecodeOTSConfirmedTx tx =
           Inr \<lparr>RootHash_cp = RootHash_cp p,
                BTCBlockHeight_cp =
                  (if sint (BTCBlockHeight_cp p) < 0 then - BTCBlockHeight_cp p
                   else BTCBlockHeight_cp p),
                BTCTxID_cp = BTCTxID_cp p,
                BTCTimestamp_cp =
                  (if sint (BTCTimestamp_cp p) < 0 then - BTCTimestamp_cp p
                   else BTCTimestamp_cp p)\<rparr>"
proof -
  have sel: "length OTSConfirmedSelector = 4" by (simp add: OTSConfirmedSelector_eq)
  note l = layout5 [OF sel length_hashBytes length_hashBytes length_hashBytes length_hashBytes]
  from assms have data: "TxData tx =
      OTSConfirmedSelector @ hashBytes (RootHash_cp p) @
      hashBytes (BigToHash (sint (BTCBlockHeight_cp p))) @ hashBytes (BTCTxID_cp p) @
      hashBytes (BigToHash (sint (BTCTimestamp_cp p)))"
    by (auto simp: BuildOTSConfirmedTx_layout NewTransaction_def)
  have m: "matchSelector OTSConfirmedSelector OTSConfirmedSelector"
    by (simp add: matchSelector_def OTSConfirmedSelector_eq)
  show ?thesis
    unfolding DecodeOTSConfirmedTx_def data Let_def
    by (simp only: l m BytesToHash_hashBytes hashUint64_BigToHash) simp
qed

lemma otsConfirmed_roundtrip_int64:
  assumes "BuildOTSConfirmedTx b (Some p) coinbase nonce gasLimit = Inr tx"
    and "0 \<le> sint (BTCBlockHeight_cp p)" and "0 \<le> sint (BTCTimestamp_cp p)"
  shows "DecodeOTSConfirmedTx tx = Inr p"
  using otsConfirmed_decode_encode [OF assms(1)] assms(2,3) by simp

text \<open>
  C5. Decoding the encoded calldata returns the parameters, for each of the three
  shapes and every value of the uint64 fields. The anchor and otsSubmitted shapes do
  (\<open>anchor_roundtrip\<close>, \<open>otsSubmitted_roundtrip\<close>); the otsConfirmed shape does not: for
  the block height \<open>2^64 - 1\<close> the builder encodes 1, which is what the decoder returns.
\<close>

theorem otsConfirmed_roundtrip_fails:
  "BuildOTSConfirmedTx \<lparr>contractAddress_b = 0x9000\<rparr>
     (Some \<lparr>RootHash_cp = 0, BTCBlockHeight_cp = 0xFFFFFFFFFFFFFFFF, BTCTxID_cp = 0,
            BTCTimestamp_cp = 0\<rparr>) 0x1234 0 100000 =
   Inr (NewTransaction 0 0x9000 0 100000 0
          (OTSConfirmedSelector @ hashBytes 0 @ hashBytes 1 @ hashBytes 0 @ hashBytes 0)) \<and>
   DecodeOTSConfirmedTx (NewTransaction 0 0x9000 0 100000 0
          (OTSConfirmedSelector @ hashBytes 0 @ hashBytes 1 @ hashBytes 0 @ hashBytes 0)) =
   Inr \<lparr>RootHash_cp = 0, BTCBlockHeight_cp = 1, BTCTxID_cp = 0, BTCTimestamp_cp = 0\<rparr>"
proof -
  let ?p = "\<lparr>RootHash_cp = 0, BTCBlockHeight_cp = 0xFFFFFFFFFFFFFFFF, BTCTxID_cp = 0,
              BTCTimestamp_cp = 0 :: uint64\<rparr>"
  let ?tx = "NewTransaction 0 0x9000 0 100000 0
          (OTSConfirmedSelector @ hashBytes 0 @ hashBytes 1 @ hashBytes 0 @ hashBytes 0)"
  have h: "BigToHash (- 1) = 1"
    by (simp add: BigToHash_def BytesToHash_def big_SetBytes_Bytes)
  have t: "BigToHash 0 = 0"
    by (simp add: BigToHash_def BytesToHash_def big_SetBytes_Bytes)
  have build: "BuildOTSConfirmedTx \<lparr>contractAddress_b = 0x9000\<rparr> (Some ?p) 0x1234 0 100000 =
      Inr ?tx"
    by (simp add: BuildOTSConfirmedTx_layout h t)
  from otsConfirmed_decode_encode [OF build] build show ?thesis by simp
qed

section \<open>The system-transaction validator\<close>

lemma ValidateSystemTx_None_iff:
  "ValidateSystemTx v tx coinbase = None \<longleftrightarrow>
     TxGasPrice tx = 0 \<and> TxTo tx = Some (contractAddress v) \<and> 4 \<le> length (TxData tx) \<and>
     take 4 (TxData tx) = anchorSig"
proof (cases "4 \<le> length (TxData tx)")
  case True
  have sel: "(TxData tx ! 0 \<noteq> anchorSig ! 0 \<or> TxData tx ! 1 \<noteq> anchorSig ! 1 \<or>
              TxData tx ! 2 \<noteq> anchorSig ! 2 \<or> TxData tx ! 3 \<noteq> anchorSig ! 3) =
             (take 4 (TxData tx) \<noteq> anchorSig)"
    using take4_eq [OF True, of "0xa0" "0x51" "0x4e" "0xfe"] by (simp add: anchorSig_eq)
  show ?thesis
    unfolding ValidateSystemTx_def sel using True by (cases "TxTo tx") auto
next
  case False
  then show ?thesis
    unfolding ValidateSystemTx_def by (cases "TxTo tx") auto
qed

text \<open>
  C3, as the code has it. \<open>ValidateSystemTx\<close> returns nil exactly when the gas price is
  0, the recipient is the validator's contract address, and the calldata has at least
  four bytes of which the first four are the anchor selector. It knows no other
  selector and no minimum length beyond the selector. The checks run in this order and
  answer \<open>ErrNotSystemTx\<close>, \<open>ErrInvalidRecipient\<close> and \<open>ErrInvalidCalldata\<close>.
\<close>

theorem ValidateSystemTx_accepts_iff:
  "(ValidateSystemTx v tx coinbase = None \<longleftrightarrow>
      TxGasPrice tx = 0 \<and> TxTo tx = Some (contractAddress v) \<and> 4 \<le> length (TxData tx) \<and>
      take 4 (TxData tx) = anchorSig) \<and>
   (TxGasPrice tx \<noteq> 0 \<longrightarrow> ValidateSystemTx v tx coinbase = Some ErrNotSystemTx) \<and>
   (TxGasPrice tx = 0 \<and> TxTo tx \<noteq> Some (contractAddress v) \<longrightarrow>
      ValidateSystemTx v tx coinbase = Some ErrInvalidRecipient) \<and>
   (TxGasPrice tx = 0 \<and> TxTo tx = Some (contractAddress v) \<and>
      \<not> (4 \<le> length (TxData tx) \<and> take 4 (TxData tx) = anchorSig) \<longrightarrow>
      ValidateSystemTx v tx coinbase = Some ErrInvalidCalldata)"
proof (intro conjI impI)
  show "ValidateSystemTx v tx coinbase = None \<longleftrightarrow>
      TxGasPrice tx = 0 \<and> TxTo tx = Some (contractAddress v) \<and> 4 \<le> length (TxData tx) \<and>
      take 4 (TxData tx) = anchorSig"
    by (rule ValidateSystemTx_None_iff)
next
  assume "TxGasPrice tx \<noteq> 0"
  then show "ValidateSystemTx v tx coinbase = Some ErrNotSystemTx"
    by (simp add: ValidateSystemTx_def)
next
  assume "TxGasPrice tx = 0 \<and> TxTo tx \<noteq> Some (contractAddress v)"
  then show "ValidateSystemTx v tx coinbase = Some ErrInvalidRecipient"
    unfolding ValidateSystemTx_def by (cases "TxTo tx") auto
next
  assume a: "TxGasPrice tx = 0 \<and> TxTo tx = Some (contractAddress v) \<and>
      \<not> (4 \<le> length (TxData tx) \<and> take 4 (TxData tx) = anchorSig)"
  show "ValidateSystemTx v tx coinbase = Some ErrInvalidCalldata"
  proof (cases "4 \<le> length (TxData tx)")
    case True
    with a have "take 4 (TxData tx) \<noteq> anchorSig" by simp
    then have "TxData tx ! 0 \<noteq> anchorSig ! 0 \<or> TxData tx ! 1 \<noteq> anchorSig ! 1 \<or>
        TxData tx ! 2 \<noteq> anchorSig ! 2 \<or> TxData tx ! 3 \<noteq> anchorSig ! 3"
      using take4_eq [OF True, of "0xa0" "0x51" "0x4e" "0xfe"] by (simp add: anchorSig_eq)
    with a True show ?thesis by (simp add: ValidateSystemTx_def)
  next
    case False
    with a show ?thesis by (simp add: ValidateSystemTx_def)
  qed
qed

text \<open>The transactions of the validator's tests, through the theorem.\<close>

theorem ValidateSystemTx_accepts_iff_witness:
  "ValidateSystemTx \<lparr>contractAddress = 0x9000\<rparr>
     (NewTransaction 0 0x9000 0 100000 0
        (encodeCalldata \<lparr>StartBlock_meta = 1, EndBlock_meta = 100, RootHash_meta = 0xabcd,
           BTCTxID_cand = ''1234'', BTCTimestamp_cand = 1700000000\<rparr>)) 0x1234 = None \<and>
   ValidateSystemTx \<lparr>contractAddress = 0x9000\<rparr>
     (NewTransaction 0 0x9000 0 100000 1 anchorSig) 0x1234 = Some ErrNotSystemTx \<and>
   ValidateSystemTx \<lparr>contractAddress = 0x9000\<rparr>
     (NewTransaction 0 0x9001 0 100000 0 anchorSig) 0x1234 = Some ErrInvalidRecipient \<and>
   ValidateSystemTx \<lparr>contractAddress = 0x9000\<rparr>
     (NewTransaction 0 0x9000 0 100000 0 [0x01, 0x02]) 0x1234 = Some ErrInvalidCalldata \<and>
   ValidateSystemTx \<lparr>contractAddress = 0x9000\<rparr>
     (NewTransaction 0 0x9000 0 100000 0 [0xde, 0xad, 0xbe, 0xef]) 0x1234 =
     Some ErrInvalidCalldata"
proof -
  let ?v = "\<lparr>contractAddress = 0x9000\<rparr>"
  let ?c = "\<lparr>StartBlock_meta = 1, EndBlock_meta = 100, RootHash_meta = 0xabcd,
           BTCTxID_cand = ''1234'', BTCTimestamp_cand = 1700000000\<rparr>"
  have sig: "length anchorSig = 4" by (simp add: anchorSig_eq)
  have enc: "4 \<le> length (encodeCalldata ?c) \<and> take 4 (encodeCalldata ?c) = anchorSig"
    unfolding encodeCalldata_layout using sig by simp
  from enc ValidateSystemTx_accepts_iff
      [of ?v "NewTransaction 0 0x9000 0 100000 0 (encodeCalldata ?c)" "0x1234"]
  have 1: "ValidateSystemTx ?v (NewTransaction 0 0x9000 0 100000 0 (encodeCalldata ?c)) 0x1234 =
      None"
    by (simp add: NewTransaction_def)
  from ValidateSystemTx_accepts_iff [of ?v "NewTransaction 0 0x9000 0 100000 1 anchorSig" "0x1234"]
  have 2: "ValidateSystemTx ?v (NewTransaction 0 0x9000 0 100000 1 anchorSig) 0x1234 =
      Some ErrNotSystemTx"
    by (simp add: NewTransaction_def)
  from ValidateSystemTx_accepts_iff [of ?v "NewTransaction 0 0x9001 0 100000 0 anchorSig" "0x1234"]
  have 3: "ValidateSystemTx ?v (NewTransaction 0 0x9001 0 100000 0 anchorSig) 0x1234 =
      Some ErrInvalidRecipient"
    by (simp add: NewTransaction_def)
  from ValidateSystemTx_accepts_iff [of ?v "NewTransaction 0 0x9000 0 100000 0 [0x01, 0x02]" "0x1234"]
  have 4: "ValidateSystemTx ?v (NewTransaction 0 0x9000 0 100000 0 [0x01, 0x02]) 0x1234 =
      Some ErrInvalidCalldata"
    by (simp add: NewTransaction_def)
  from ValidateSystemTx_accepts_iff
      [of ?v "NewTransaction 0 0x9000 0 100000 0 [0xde, 0xad, 0xbe, 0xef]" "0x1234"]
  have 5: "ValidateSystemTx ?v (NewTransaction 0 0x9000 0 100000 0 [0xde, 0xad, 0xbe, 0xef])
      0x1234 = Some ErrInvalidCalldata"
    by (simp add: NewTransaction_def anchorSig_eq)
  from 1 2 3 4 5 show ?thesis by blast
qed

text \<open>
  C3 as claimed fails in both directions: a transaction whose calldata is the bare
  anchor selector (4 bytes, below each of the minimum lengths 36, 68 and 164) is
  accepted, and a well-formed otsSubmitted transaction of 68 bytes is rejected.
\<close>

theorem ValidateSystemTx_claim_counterexample:
  "ValidateSystemTx \<lparr>contractAddress = 0x9000\<rparr>
     (NewTransaction 0 0x9000 0 100000 0 anchorSig) 0x1234 = None \<and>
   length (TxData (NewTransaction 0 0x9000 0 100000 0 anchorSig)) < 36 \<and>
   IsOTSSubmittedTx (NewTransaction 0 0x9000 0 100000 0
     (OTSSubmittedSelector @ hashBytes 0 @ hashBytes 0)) \<and>
   length (TxData (NewTransaction 0 0x9000 0 100000 0
     (OTSSubmittedSelector @ hashBytes 0 @ hashBytes 0))) = 68 \<and>
   ValidateSystemTx \<lparr>contractAddress = 0x9000\<rparr>
     (NewTransaction 0 0x9000 0 100000 0
        (OTSSubmittedSelector @ hashBytes 0 @ hashBytes 0)) 0x1234 = Some ErrInvalidCalldata"
proof -
  have 1: "ValidateSystemTx \<lparr>contractAddress = 0x9000\<rparr>
     (NewTransaction 0 0x9000 0 100000 0 anchorSig) 0x1234 = None"
    by (simp add: ValidateSystemTx_def NewTransaction_def anchorSig_eq)
  have 2: "length (TxData (NewTransaction 0 0x9000 0 100000 0 anchorSig)) < 36"
    by (simp add: NewTransaction_def anchorSig_eq)
  have 3: "IsOTSSubmittedTx (NewTransaction 0 0x9000 0 100000 0
     (OTSSubmittedSelector @ hashBytes 0 @ hashBytes 0))"
    by (simp add: IsOTSSubmittedTx_def NewTransaction_def OTSSubmittedSelector_eq
          matchSelector_def slice_def)
  have 4: "length (TxData (NewTransaction 0 0x9000 0 100000 0
     (OTSSubmittedSelector @ hashBytes 0 @ hashBytes 0))) = 68"
    by (simp add: NewTransaction_def OTSSubmittedSelector_eq)
  have 5: "ValidateSystemTx \<lparr>contractAddress = 0x9000\<rparr>
     (NewTransaction 0 0x9000 0 100000 0
        (OTSSubmittedSelector @ hashBytes 0 @ hashBytes 0)) 0x1234 = Some ErrInvalidCalldata"
    by (simp add: ValidateSystemTx_def NewTransaction_def OTSSubmittedSelector_eq anchorSig_eq)
  from 1 2 3 4 5 show ?thesis by blast
qed

section \<open>The Merkle root of a single RUID\<close>

lemma layersLoop_single: "layersLoop [x] = x"
  by (simp add: layersLoop.simps)

text \<open>
  C4, as the code has it. The loop over layers runs only while the layer has more than
  one node, so for a single RUID the root is the leaf \<open>keccak256(r)\<close> itself; nothing
  is combined.
\<close>

theorem buildMerkleRoot_single: "buildMerkleRoot [r] = Keccak256Hash (hashBytes r)"
  by (simp add: buildMerkleRoot_def layersLoop_single)

lemma hashBytes_zero: "hashBytes 0 = replicate 32 0"
  by (simp add: hashBytes_def leftPad_def big_Bytes.simps)

lemma zero_leaf:
  "Keccak256Hash (hashBytes 0) =
     0x290decd9548b62a8d60345a988386fc84ba6bc95484008f6362f93160ef3e563"
  by (simp add: Keccak256Hash_def hashBytes_zero Keccak256_zero_ruid BytesToHash_def
        big_SetBytes_def)

theorem buildMerkleRoot_single_witness:
  "buildMerkleRoot [0] = 0x290decd9548b62a8d60345a988386fc84ba6bc95484008f6362f93160ef3e563"
  using buildMerkleRoot_single [of 0] by (simp add: zero_leaf)

lemma hashBytes_zero_leaf:
  "hashBytes 0x290decd9548b62a8d60345a988386fc84ba6bc95484008f6362f93160ef3e563 =
     [0x29, 0x0d, 0xec, 0xd9, 0x54, 0x8b, 0x62, 0xa8, 0xd6, 0x03, 0x45, 0xa9, 0x88, 0x38, 0x6f,
      0xc8, 0x4b, 0xa6, 0xbc, 0x95, 0x48, 0x40, 0x08, 0xf6, 0x36, 0x2f, 0x93, 0x16, 0x0e, 0xf3,
      0xe5, 0x63]"
  by (simp add: hashBytes_def leftPad_def big_Bytes.simps)

lemma zero_leaf_pair:
  "hashPair (Keccak256Hash (hashBytes 0)) (Keccak256Hash (hashBytes 0)) =
     0x633dc4d7da7256660a892f8f1604a44b5432649cc8ec5cb3ced4c4e6ac94dd1d"
  unfolding zero_leaf hashPair_def
  by (simp add: Keccak256Hash_def hashBytes_zero_leaf Keccak256_zero_leaf_pair BytesToHash_def
        big_SetBytes_def)

text \<open>
  C4 as claimed fails: for the RUID of 32 zero bytes the root is the leaf
  \<open>0x290d\<dots>e563\<close>, and the leaf combined with itself is \<open>0x633d\<dots>dd1d\<close>.
\<close>

theorem buildMerkleRoot_single_counterexample:
  "buildMerkleRoot [0] \<noteq> hashPair (Keccak256Hash (hashBytes 0)) (Keccak256Hash (hashBytes 0))"
  unfolding zero_leaf_pair by (simp add: buildMerkleRoot_def layersLoop_single zero_leaf)

section \<open>The calendar\<close>

lemma Hour_nonneg: "0 \<le> Hour a"
  by (simp add: Hour_def pos_imp_zdiv_nonneg_iff)

lemma div_digit:
  fixes q :: int
  assumes "0 \<le> r" "r < k"
  shows "(k * q + r) div k = q"
  using assms by (simp add: div_pos_pos_trivial)

lemma daysBefore_digits:
  assumes "0 \<le> b" "b \<le> 3" "0 \<le> c" "c \<le> 24" "0 \<le> e" "e \<le> 3"
  shows "daysBefore (400 * a + 100 * b + 4 * c + e) =
           146097 * a + 36524 * b + 1461 * c + 365 * e"
proof -
  let ?y = "400 * a + 100 * b + 4 * c + e"
  have "?y = 4 * (100 * a + 25 * b + c) + e" by simp
  then have 4: "?y div 4 = 100 * a + 25 * b + c"
    using assms div_digit [of e 4 "100 * a + 25 * b + c"] by simp
  have "?y = 100 * (4 * a + b) + (4 * c + e)" by simp
  then have 100: "?y div 100 = 4 * a + b"
    using assms div_digit [of "4 * c + e" 100 "4 * a + b"] by simp
  have "?y = 400 * a + (100 * b + 4 * c + e)" by simp
  then have 400: "?y div 400 = a"
    using assms div_digit [of "100 * b + 4 * c + e" 400 a] by simp
  show ?thesis unfolding daysBefore_def 4 100 400 by simp
qed

lemma daysBefore_leap:
  assumes "0 \<le> b" "b \<le> 3" "0 \<le> c" "c \<le> 24" "c < 24 \<or> b = 3"
  shows "daysBefore (400 * a + 100 * b + 4 * c + 3 + 1) =
           146097 * a + 36524 * b + 1461 * c + 365 * 3 + 366"
proof (cases "c < 24")
  case True
  then have c: "0 \<le> c + 1" "c + 1 \<le> 24" using assms by simp_all
  have eq: "400 * a + 100 * b + 4 * c + 3 + 1 = 400 * a + 100 * b + 4 * (c + 1) + 0" by simp
  have "daysBefore (400 * a + 100 * b + 4 * (c + 1) + 0) =
          146097 * a + 36524 * b + 1461 * (c + 1) + 365 * 0"
    by (rule daysBefore_digits [OF assms(1,2) c]) simp_all
  then show ?thesis unfolding eq by simp
next
  case False
  with assms have c: "c = 24" and b: "b = 3" by simp_all
  have eq: "400 * a + 100 * b + 4 * c + 3 + 1 = 400 * (a + 1) + 100 * 0 + 4 * 0 + 0"
    by (simp add: b c)
  have "daysBefore (400 * (a + 1) + 100 * 0 + 4 * 0 + 0) =
          146097 * (a + 1) + 36524 * 0 + 1461 * 0 + 365 * 0"
    by (rule daysBefore_digits) simp_all
  then show ?thesis unfolding eq by (simp add: b c)
qed

lemma year_digits:
  fixes y :: int
  obtains a b c e where "y = 400 * a + 100 * b + 4 * c + e"
    "0 \<le> b" "b \<le> 3" "0 \<le> c" "c \<le> 24" "0 \<le> e" "e \<le> 3"
proof -
  define a where "a = y div 400"
  define r where "r = y mod 400"
  define b where "b = r div 100"
  define s where "s = r mod 100"
  define c where "c = s div 4"
  define e where "e = s mod 4"
  have y: "y = 400 * a + r" by (simp add: a_def r_def)
  have r: "0 \<le> r" "r < 400" by (simp_all add: r_def)
  have rb: "r = 100 * b + s" by (simp add: b_def s_def)
  have s: "0 \<le> s" "s < 100" by (simp_all add: s_def)
  have sc: "s = 4 * c + e" by (simp add: c_def e_def)
  have e: "0 \<le> e" "e < 4" by (simp_all add: e_def)
  have "y = 400 * a + 100 * b + 4 * c + e" using y rb sc by simp
  moreover have "0 \<le> b" "b \<le> 3" using r rb s by linarith+
  moreover have "0 \<le> c" "c \<le> 24" using s sc e by linarith+
  moreover have "0 \<le> e" "e \<le> 3" using e by linarith+
  ultimately show ?thesis by (rule that)
qed

lemma daysBefore_step: "daysBefore y + 365 \<le> daysBefore (y + 1)"
proof -
  obtain a b c e where y: "y = 400 * a + 100 * b + 4 * c + e"
    and d: "0 \<le> b" "b \<le> 3" "0 \<le> c" "c \<le> 24" "0 \<le> e" "e \<le> 3"
    by (rule year_digits)
  have 0: "daysBefore y = 146097 * a + 36524 * b + 1461 * c + 365 * e"
    unfolding y by (rule daysBefore_digits [OF d])
  show ?thesis
  proof (cases "e < 3")
    case True
    have eq: "y + 1 = 400 * a + 100 * b + 4 * c + (e + 1)" by (simp add: y)
    have "0 \<le> e + 1" "e + 1 \<le> 3" using True d by simp_all
    then have "daysBefore (400 * a + 100 * b + 4 * c + (e + 1)) =
        146097 * a + 36524 * b + 1461 * c + 365 * (e + 1)"
      by (rule daysBefore_digits [OF d(1-4)])
    then have "daysBefore (y + 1) = 146097 * a + 36524 * b + 1461 * c + 365 * (e + 1)"
      unfolding eq .
    with 0 show ?thesis by simp
  next
    case False
    with d have e: "e = 3" by simp
    have y1: "y + 1 = 400 * a + 100 * b + 4 * c + 3 + 1" by (simp add: y e)
    have 3: "daysBefore y = 146097 * a + 36524 * b + 1461 * c + 365 * 3"
      using 0 by (simp add: e)
    show ?thesis
    proof (cases "c < 24 \<or> b = 3")
      case True
      have "daysBefore (y + 1) = 146097 * a + 36524 * b + 1461 * c + 365 * 3 + 366"
        unfolding y1 by (rule daysBefore_leap [OF d(1-4) True])
      with 3 show ?thesis by simp
    next
      case False
      with d have c: "c = 24" and b: "b < 3" by simp_all
      have eq: "y + 1 = 400 * a + 100 * (b + 1) + 4 * 0 + 0" by (simp add: y e c)
      have "0 \<le> b + 1" "b + 1 \<le> 3" using b d by simp_all
      then have "daysBefore (400 * a + 100 * (b + 1) + 4 * 0 + 0) =
          146097 * a + 36524 * (b + 1) + 1461 * 0 + 365 * 0"
        by (rule daysBefore_digits) simp_all
      then have "daysBefore (y + 1) = 146097 * a + 36524 * (b + 1)"
        unfolding eq by simp
      with 3 show ?thesis by (simp add: c)
    qed
  qed
qed

lemma daysBefore_mono: "y \<le> z \<Longrightarrow> daysBefore y \<le> daysBefore z"
proof (induction z rule: int_ge_induct)
  case base
  show ?case by simp
next
  case (step i)
  with daysBefore_step [of i] show ?case by simp
qed

text \<open>
  What the four cuts compute: the year \<open>y\<close> (counted from the start of the cycles)
  and the day \<open>d\<close> in it are those of day \<open>D\<close>, which lies between the first day of
  year \<open>y\<close> and the first day of the next.
\<close>

lemma atMost3_cases:
  assumes "0 \<le> n" "n \<le> 4"
  shows "(n \<le> 3 \<and> atMost3 n = n) \<or> (n = 4 \<and> atMost3 n = 3)"
proof -
  from assms have "n = 0 \<or> n = 1 \<or> n = 2 \<or> n = 3 \<or> n = 4" by linarith
  then show ?thesis by (auto simp: atMost3_def)
qed

lemma cuts_split:
  assumes "0 \<le> D"
  obtains y d where "cut1 (cut4 (cut100 (cut400 (0, D)))) = (y, d)"
    and "daysBefore y + d = D" and "0 \<le> d" and "D < daysBefore (y + 1)"
proof -
  define a where "a = D div 146097"
  define r1 where "r1 = D mod 146097"
  have D: "D = 146097 * a + r1" by (simp add: a_def r1_def)
  have r1: "0 \<le> r1" "r1 < 146097" by (simp_all add: r1_def)
  have c400: "cut400 (0, D) = (400 * a, r1)"
    by (simp add: a_def r1_def minus_mult_div_eq_mod)
  define b' where "b' = r1 div 36524"
  define s1 where "s1 = r1 mod 36524"
  have r1': "r1 = 36524 * b' + s1" by (simp add: b'_def s1_def)
  have s1: "0 \<le> s1" "s1 < 36524" by (simp_all add: s1_def)
  have b': "0 \<le> b'" "b' \<le> 4" using r1 r1' s1 by linarith+
  define b where "b = atMost3 b'"
  define r2 where "r2 = r1 - 36524 * b"
  have c100: "cut100 (400 * a, r1) = (400 * a + 100 * b, r2)"
    by (simp add: b_def b'_def r2_def)
  from atMost3_cases [OF b'] have bb: "(b' \<le> 3 \<and> b = b') \<or> (b' = 4 \<and> b = 3)"
    by (simp add: b_def)
  have b: "0 \<le> b" "b \<le> 3" using bb b' by linarith+
  have r2: "0 \<le> r2" "r2 \<le> 36524" "b < 3 \<longrightarrow> r2 \<le> 36523"
    using bb r1 r1' s1 by (auto simp: r2_def)
  define c where "c = r2 div 1461"
  define r3 where "r3 = r2 mod 1461"
  have r2': "r2 = 1461 * c + r3" by (simp add: c_def r3_def)
  have r3: "0 \<le> r3" "r3 < 1461" by (simp_all add: r3_def)
  have c: "0 \<le> c" "c \<le> 24" using r2 r2' r3 by linarith+
  have r3': "c = 24 \<and> b < 3 \<longrightarrow> r3 \<le> 1459" using r2 r2' by auto
  have c4: "cut4 (400 * a + 100 * b, r2) = (400 * a + 100 * b + 4 * c, r3)"
    by (simp add: c_def r3_def minus_mult_div_eq_mod)
  define e' where "e' = r3 div 365"
  define s3 where "s3 = r3 mod 365"
  have r3'': "r3 = 365 * e' + s3" by (simp add: e'_def s3_def)
  have s3: "0 \<le> s3" "s3 < 365" by (simp_all add: s3_def)
  have e': "0 \<le> e'" "e' \<le> 4" using r3 r3'' s3 by linarith+
  define e where "e = atMost3 e'"
  define d where "d = r3 - 365 * e"
  have c1: "cut1 (400 * a + 100 * b + 4 * c, r3) = (400 * a + 100 * b + 4 * c + e, d)"
    by (simp add: e_def e'_def d_def)
  from atMost3_cases [OF e'] have ee: "(e' \<le> 3 \<and> e = e') \<or> (e' = 4 \<and> e = 3)"
    by (simp add: e_def)
  have e: "0 \<le> e" "e \<le> 3" using ee e' by linarith+
  have d: "0 \<le> d" "d \<le> 364 \<or> (d = 365 \<and> e = 3 \<and> (c < 24 \<or> b = 3))"
    using ee r3 r3' r3'' s3 b c by (auto simp: d_def)
  let ?y = "400 * a + 100 * b + 4 * c + e"
  have dig: "daysBefore ?y = 146097 * a + 36524 * b + 1461 * c + 365 * e"
    by (rule daysBefore_digits [OF b c e])
  have 1: "cut1 (cut4 (cut100 (cut400 (0, D)))) = (?y, d)"
    by (simp only: c400 c100 c4 c1)
  have 2: "daysBefore ?y + d = D"
    unfolding dig using D r2' by (simp add: r2_def d_def)
  have 3: "D < daysBefore (?y + 1)"
  proof (cases "d \<le> 364")
    case True
    with daysBefore_step [of ?y] 2 show ?thesis by linarith
  next
    case False
    with d have l: "d = 365" "e = 3" "c < 24 \<or> b = 3" by simp_all
    have "daysBefore (400 * a + 100 * b + 4 * c + 3 + 1) =
        146097 * a + 36524 * b + 1461 * c + 365 * 3 + 366"
      by (rule daysBefore_leap [OF b c l(3)])
    with 2 dig l show ?thesis by simp
  qed
  from 1 2 d(1) 3 show ?thesis by (rule that)
qed

lemma absDays_nonneg: "0 \<le> absDays a"
  by (simp add: absDays_def pos_imp_zdiv_nonneg_iff)

lemma absDays_mono: "p \<le> c \<Longrightarrow> absDays p \<le> absDays c"
  by (simp add: absDays_def word_le_def zdiv_mono1)

text \<open>Year and day of the year, as a pair, do not decrease along the time.\<close>

lemma Year_YearDay_mono:
  assumes "p \<le> c"
  shows "Year p < Year c \<or> (Year p = Year c \<and> YearDay p \<le> YearDay c)"
proof -
  obtain y1 d1 where 1: "absDate p = (y1, d1)" "daysBefore y1 + d1 = absDays p" "0 \<le> d1"
      "absDays p < daysBefore (y1 + 1)"
    unfolding absDate_def by (rule cuts_split [OF absDays_nonneg])
  obtain y2 d2 where 2: "absDate c = (y2, d2)" "daysBefore y2 + d2 = absDays c" "0 \<le> d2"
      "absDays c < daysBefore (y2 + 1)"
    unfolding absDate_def by (rule cuts_split [OF absDays_nonneg])
  note le = absDays_mono [OF assms]
  have "y1 \<le> y2"
  proof (rule ccontr)
    assume "\<not> y1 \<le> y2"
    then have "daysBefore (y2 + 1) \<le> daysBefore y1" by (intro daysBefore_mono) simp
    with 1 2 le show False by linarith
  qed
  moreover have "d1 \<le> d2" if "y1 = y2" using that 1 2 le by simp
  ultimately show ?thesis by (auto simp: Year_def YearDay_def 1 2)
qed

text \<open>
  Timestamps below \<open>2^63\<close> keep their order as times: the absolute seconds do not wrap.
\<close>

lemma unixUTC_mono:
  assumes "s \<le> t" and "t < 2 ^ 63"
  shows "unixUTC s \<le> unixUTC t"
proof -
  have c: "uint (unixToInternal + internalToAbsolute) = 9223372028715321600"
    by (simp add: unixToInternal_def internalToAbsolute_def)
  have t: "uint t < 2 ^ 63" using assms(2) by (simp add: word_less_def)
  have s: "uint s \<le> uint t" using assms(1) by (simp add: word_le_def)
  have "uint (unixUTC t) = uint t + 9223372028715321600"
    unfolding unixUTC_def using t c by (simp add: uint_add_lem [THEN iffD1])
  moreover have "uint (unixUTC s) = uint s + 9223372028715321600"
    unfolding unixUTC_def using t s c by (simp add: uint_add_lem [THEN iffD1])
  ultimately show ?thesis using s by (simp add: word_le_def)
qed

section \<open>The trigger predicate\<close>

lemma year_or_day_later:
  assumes "p \<le> c"
  shows "(Year c > Year p \<or> YearDay c > YearDay p) \<longleftrightarrow>
         (Year c > Year p \<or> (Year c = Year p \<and> YearDay c > YearDay p))"
    and "\<not> (Year c > Year p \<or> YearDay c > YearDay p) \<longleftrightarrow>
         (Year c = Year p \<and> YearDay c = YearDay p)"
  using Year_YearDay_mono [OF assms] by auto

lemma isTriggerBlock_specTriggerPredicate:
  assumes "getHeader te (ParentHash header) (Number header - 1) = Some parentHeader"
    and "unixUTC (Time parentHeader) \<le> unixUTC (Time header)"
  shows "isTriggerBlock te header \<longleftrightarrow>
         specTriggerPredicate (unixUTC (Time header)) (unixUTC (Time parentHeader))"
  using year_or_day_later [OF assms(2)] assms(1)
  by (simp add: isTriggerBlock_def specTriggerPredicate_def Let_def)

text \<open>
  The predicate as the code computes it. With a missing parent header it is false.
  With a parent header it is true iff the current year is later than the parent's or
  the current day of the year is later than the parent's (the two are tested
  separately, not as a pair) and the current hour is at least H, or neither is later
  and the parent hour is below H and the current hour at least H. With H = 0 no hour
  is below H, so the second branch never fires and the predicate is the year-or-day
  test alone. It is the comparison of the pairs that the specification states
  whenever the header's timestamp is not below its parent's and below \<open>2^63\<close>.
\<close>

lemma isTriggerBlock_iff:
  "(getHeader te (ParentHash header) (Number header - 1) = None \<longrightarrow>
      \<not> isTriggerBlock te header) \<and>
   (getHeader te (ParentHash header) (Number header - 1) = Some parentHeader \<longrightarrow>
      (isTriggerBlock te header \<longleftrightarrow>
         ((Year (unixUTC (Time header)) > Year (unixUTC (Time parentHeader)) \<or>
           YearDay (unixUTC (Time header)) > YearDay (unixUTC (Time parentHeader))) \<and>
          Hour (unixUTC (Time header)) \<ge> TriggerHourUTC) \<or>
         (\<not> (Year (unixUTC (Time header)) > Year (unixUTC (Time parentHeader)) \<or>
             YearDay (unixUTC (Time header)) > YearDay (unixUTC (Time parentHeader))) \<and>
          Hour (unixUTC (Time parentHeader)) < TriggerHourUTC \<and>
          Hour (unixUTC (Time header)) \<ge> TriggerHourUTC)) \<and>
      \<not> Hour (unixUTC (Time parentHeader)) < TriggerHourUTC \<and>
      (isTriggerBlock te header \<longleftrightarrow>
         Year (unixUTC (Time header)) > Year (unixUTC (Time parentHeader)) \<or>
         YearDay (unixUTC (Time header)) > YearDay (unixUTC (Time parentHeader))) \<and>
      (Time parentHeader \<le> Time header \<and> Time header < 2 ^ 63 \<longrightarrow>
         (isTriggerBlock te header \<longleftrightarrow>
            specTriggerPredicate (unixUTC (Time header)) (unixUTC (Time parentHeader)))))"
proof (intro conjI impI)
  assume "getHeader te (ParentHash header) (Number header - 1) = None"
  then show "\<not> isTriggerBlock te header" by (simp add: isTriggerBlock_def)
next
  assume p: "getHeader te (ParentHash header) (Number header - 1) = Some parentHeader"
  then show "isTriggerBlock te header \<longleftrightarrow>
         ((Year (unixUTC (Time header)) > Year (unixUTC (Time parentHeader)) \<or>
           YearDay (unixUTC (Time header)) > YearDay (unixUTC (Time parentHeader))) \<and>
          Hour (unixUTC (Time header)) \<ge> TriggerHourUTC) \<or>
         (\<not> (Year (unixUTC (Time header)) > Year (unixUTC (Time parentHeader)) \<or>
             YearDay (unixUTC (Time header)) > YearDay (unixUTC (Time parentHeader))) \<and>
          Hour (unixUTC (Time parentHeader)) < TriggerHourUTC \<and>
          Hour (unixUTC (Time header)) \<ge> TriggerHourUTC)"
    by (simp add: isTriggerBlock_def Let_def)
next
  assume "getHeader te (ParentHash header) (Number header - 1) = Some parentHeader"
  show "\<not> Hour (unixUTC (Time parentHeader)) < TriggerHourUTC"
    using Hour_nonneg [of "unixUTC (Time parentHeader)"] by (simp add: TriggerHourUTC_def)
next
  assume p: "getHeader te (ParentHash header) (Number header - 1) = Some parentHeader"
  with Hour_nonneg [of "unixUTC (Time header)"] Hour_nonneg [of "unixUTC (Time parentHeader)"]
  show "isTriggerBlock te header \<longleftrightarrow>
         Year (unixUTC (Time header)) > Year (unixUTC (Time parentHeader)) \<or>
         YearDay (unixUTC (Time header)) > YearDay (unixUTC (Time parentHeader))"
    by (simp add: isTriggerBlock_def Let_def TriggerHourUTC_def)
next
  assume p: "getHeader te (ParentHash header) (Number header - 1) = Some parentHeader"
    and t: "Time parentHeader \<le> Time header \<and> Time header < 2 ^ 63"
  from t have "unixUTC (Time parentHeader) \<le> unixUTC (Time header)"
    by (intro unixUTC_mono) simp_all
  with p show "isTriggerBlock te header \<longleftrightarrow>
      specTriggerPredicate (unixUTC (Time header)) (unixUTC (Time parentHeader))"
    by (rule isTriggerBlock_specTriggerPredicate)
qed

text \<open>Calendar fields of the timestamps used in the examples.\<close>

lemmas calendar_defs = Year_def YearDay_def Hour_def absDate_def absDays_def atMost3_def
  unixUTC_def unixToInternal_def internalToAbsolute_def absoluteZeroYear_def

lemma calendar_1970_01_01:
  "Year (unixUTC 0) = 1970" "YearDay (unixUTC 0) = 1" "Hour (unixUTC 0) = 0"
  by (simp_all add: calendar_defs)

lemma calendar_1970_01_02:
  "Year (unixUTC 86400) = 1970" "YearDay (unixUTC 86400) = 2" "Hour (unixUTC 86400) = 0"
  by (simp_all add: calendar_defs)



text \<open>29 February 2000 and 1 March 2100 are both day 60 of their year.\<close>

lemma calendar_leap_days:
  "Year (unixUTC 951782400) = 2000" "YearDay (unixUTC 951782400) = 60"
  "Year (unixUTC 4107542400) = 2100" "YearDay (unixUTC 4107542400) = 60"
  by (simp_all add: calendar_defs)

text \<open>
  A missing parent, and the step across midnight from 1970-01-01 00:00:00 to
  1970-01-02 00:00:00.
\<close>

lemma isTriggerBlock_across_midnight:
  "getHeader (orphanEngine []) (ParentHash exampleHeader) (Number exampleHeader - 1) = None \<and>
   \<not> isTriggerBlock (orphanEngine []) exampleHeader \<and>
   getHeader (testEngine exampleParent []) (ParentHash exampleHeader) (Number exampleHeader - 1) =
     Some exampleParent \<and>
   Time exampleParent \<le> Time exampleHeader \<and> Time exampleHeader < 2 ^ 63 \<and>
   isTriggerBlock (testEngine exampleParent []) exampleHeader \<and>
   specTriggerPredicate (unixUTC (Time exampleHeader)) (unixUTC (Time exampleParent))"
proof -
  let ?h = exampleHeader
  let ?p = exampleParent
  have 1: "getHeader (orphanEngine []) (ParentHash ?h) (Number ?h - 1) = None"
    by (simp add: orphanEngine_def)
  have 2: "getHeader (testEngine ?p []) (ParentHash ?h) (Number ?h - 1) = Some ?p"
    by (simp add: testEngine_def)
  have t: "Time ?p = 0" "Time ?h = 86400"
    by (simp_all add: exampleParent_def exampleHeader_def)
  have 3: "YearDay (unixUTC (Time ?h)) > YearDay (unixUTC (Time ?p))"
    by (simp add: t calendar_1970_01_01 calendar_1970_01_02)
  have 4: "Time ?p \<le> Time ?h" "Time ?h < 2 ^ 63" by (simp_all add: t)
  from 1 isTriggerBlock_iff [of "orphanEngine []" ?h ?p]
  have a: "\<not> isTriggerBlock (orphanEngine []) ?h" by blast
  from 2 3 isTriggerBlock_iff [of "testEngine ?p []" ?h ?p]
  have b: "isTriggerBlock (testEngine ?p []) ?h" by blast
  from 2 4 b isTriggerBlock_iff [of "testEngine ?p []" ?h ?p]
  have c: "specTriggerPredicate (unixUTC (Time ?h)) (unixUTC (Time ?p))" by blast
  from 1 2 4 a b c show ?thesis by blast
qed


section \<open>The collecting loop returns unless the range ends at the largest uint64\<close>

lemma uint64_inc_gt: "x \<noteq> (- 1 :: uint64) \<Longrightarrow> x < x + 1"
  using inc_less_eq_self_iff_eq [of x] by (simp add: not_le)

lemma collectRUIDs_returns:
  assumes "endBlock \<noteq> - 1"
  shows "collectRUIDs te blockNum endBlock ruids = Some ruids"
proof (induction "unat endBlock + 1 - unat blockNum" arbitrary: blockNum rule: less_induct)
  case less
  show ?case
  proof (cases "blockNum \<le> endBlock")
    case True
    have "blockNum \<noteq> - 1"
    proof
      assume "blockNum = - 1"
      with True have "endBlock = - 1" by (simp add: word_order.extremum_unique)
      with assms show False by simp
    qed
    then have "blockNum < blockNum + 1" by (rule uint64_inc_gt)
    then have "unat blockNum < unat (blockNum + 1)" by (simp add: word_less_nat_alt)
    moreover from True have "unat blockNum \<le> unat endBlock" by (simp add: word_le_nat_alt)
    ultimately have "unat endBlock + 1 - unat (blockNum + 1) < unat endBlock + 1 - unat blockNum"
      by simp
    then have "collectRUIDs te (blockNum + 1) endBlock ruids = Some ruids"
      by (rule less)
    with True show ?thesis
      by (subst collectRUIDs.simps) (simp add: getRUIDsFromBlock_def)
  next
    case False
    then show ?thesis by (subst collectRUIDs.simps) simp
  qed
qed

lemma collectRUIDs_Some_end:
  assumes "collectRUIDs te blockNum endBlock ruids = Some result"
  shows "endBlock \<noteq> - 1"
proof (rule collectRUIDs.raw_induct [where P = "\<lambda>te b e r y. e \<noteq> - 1", OF _ assms])
  fix f :: "TransitionEngine \<Rightarrow> uint64 \<Rightarrow> uint64 \<Rightarrow> hash list \<Rightarrow> hash list option"
  fix te b e r y
  assume IH: "\<And>te b e r y. f te b e r = Some y \<Longrightarrow> e \<noteq> - 1"
    and step: "(if b \<le> e then f te (b + 1) e (r @ getRUIDsFromBlock te b) else Some r) = Some y"
  show "e \<noteq> - 1"
  proof (cases "b \<le> e")
    case True
    with step have "f te (b + 1) e (r @ getRUIDsFromBlock te b) = Some y" by simp
    then show ?thesis by (rule IH)
  next
    case False
    then show ?thesis by auto
  qed
qed

lemma calculateRootHash_returns:
  "endBlock \<noteq> - 1 \<Longrightarrow> calculateRootHash te startBlock endBlock = Some 0"
  by (simp add: calculateRootHash_def collectRUIDs_returns)

lemma calculateRootHash_Some_end:
  "calculateRootHash te startBlock endBlock = Some h \<Longrightarrow> endBlock \<noteq> - 1"
  by (auto simp: calculateRootHash_def split: option.splits dest: collectRUIDs_Some_end)

lemma calculateRootHash_no_return: "calculateRootHash te startBlock (- 1) = None"
  using calculateRootHash_Some_end [of te startBlock "- 1"]
  by (cases "calculateRootHash te startBlock (- 1)") auto

section \<open>Each rule keeps the invariant\<close>

lemma endBlockAhead_NewOTSState: "endBlockAhead (NewOTSState e)"
  by (simp add: endBlockAhead_def NewOTSState_def)

lemma Trigger_keeps:
  assumes "endBlockAhead s" and "endBlock \<noteq> - 1" and "LastAnchoredBlock s \<le> endBlock"
  shows "endBlockAhead (snd (Trigger startBlock endBlock triggerBlock triggerNode rootHash s)) \<and>
         LastAnchoredBlock (snd (Trigger startBlock endBlock triggerBlock triggerNode rootHash s)) =
           LastAnchoredBlock s"
  using assms
  by (cases "CanTrigger s") (simp_all add: Trigger_def endBlockAhead_def)

lemma handleTrigger_keeps:
  assumes "endBlockAhead s" and "handleTrigger te s header = Some s'"
  shows "endBlockAhead s' \<and> LastAnchoredBlock s' = LastAnchoredBlock s"
proof (cases "Number header - 1 < LastAnchoredBlock s + 1")
  case True
  with assms show ?thesis by (simp add: handleTrigger_def Let_def)
next
  case False
  let ?start = "LastAnchoredBlock s + 1" and ?end = "Number header - 1"
  from assms(2) False obtain rootHash where
    root: "calculateRootHash te ?start ?end = Some rootHash" and
    s': "s' = snd (Trigger ?start ?end (Number header) (Coinbase header) rootHash s)"
    by (auto simp: handleTrigger_def Let_def split: option.splits)
  from root have end_ok: "?end \<noteq> - 1" by (rule calculateRootHash_Some_end)
  from assms(1) have "LastAnchoredBlock s \<noteq> - 1" by (simp add: endBlockAhead_def)
  then have "LastAnchoredBlock s < ?start" by (rule uint64_inc_gt)
  with False have le: "LastAnchoredBlock s \<le> ?end" by simp
  show ?thesis unfolding s' using assms(1) end_ok le by (rule Trigger_keeps)
qed

lemma ruleTrigger_keeps:
  assumes "endBlockAhead s" and "ruleTrigger te header s = Some s'"
  shows "endBlockAhead s' \<and> LastAnchoredBlock s' = LastAnchoredBlock s"
proof (cases "CanTrigger s \<and> isTriggerBlock te header")
  case True
  with assms(2) have "handleTrigger te s header = Some s'" by (simp add: ruleTrigger_def)
  with assms(1) show ?thesis by (rule handleTrigger_keeps)
next
  case False
  with assms show ?thesis by (auto simp: ruleTrigger_def)
qed

lemma MarkSubmitted_keeps:
  assumes "endBlockAhead s"
  shows "endBlockAhead (snd (MarkSubmitted digest blockNumber submitter s)) \<and>
         LastAnchoredBlock (snd (MarkSubmitted digest blockNumber submitter s)) =
           LastAnchoredBlock s"
  using assms by (cases "CurrentBatch s") (simp_all add: MarkSubmitted_def endBlockAhead_def)

lemma MarkConfirmed_keeps:
  assumes "endBlockAhead s"
  shows "endBlockAhead
           (snd (MarkConfirmed btcBlockHeight btcTxID btcTimestamp blockNumber confirmer s)) \<and>
         LastAnchoredBlock
           (snd (MarkConfirmed btcBlockHeight btcTxID btcTimestamp blockNumber confirmer s)) =
           LastAnchoredBlock s"
  using assms by (cases "CurrentBatch s") (simp_all add: MarkConfirmed_def endBlockAhead_def)

lemma MarkAnchored_keeps:
  assumes "endBlockAhead s"
  shows "endBlockAhead (snd (MarkAnchored blockNumber anchorer s)) \<and>
         LastAnchoredBlock s \<le> LastAnchoredBlock (snd (MarkAnchored blockNumber anchorer s))"
  using assms by (cases "CurrentBatch s") (simp_all add: MarkAnchored_def endBlockAhead_def)

lemma ruleSubmit_keeps:
  assumes "endBlockAhead s"
  shows "endBlockAhead (ruleSubmit header receipts s) \<and>
         LastAnchoredBlock (ruleSubmit header receipts s) = LastAnchoredBlock s"
proof (cases "statusIs s BatchStatusTriggered")
  case False
  with assms show ?thesis by (simp add: ruleSubmit_def)
next
  case True
  show ?thesis
  proof (cases "extractOTSSubmission header receipts")
    case None
    with assms show ?thesis by (simp add: ruleSubmit_def)
  next
    case (Some submission)
    with True have r: "ruleSubmit header receipts s =
        snd (MarkSubmitted (Digest submission) (Number header) (Coinbase header) s)"
      by (simp add: ruleSubmit_def)
    show ?thesis unfolding r using assms by (rule MarkSubmitted_keeps)
  qed
qed

lemma ruleConfirm_keeps:
  assumes "endBlockAhead s"
  shows "endBlockAhead (ruleConfirm header receipts s) \<and>
         LastAnchoredBlock (ruleConfirm header receipts s) = LastAnchoredBlock s"
proof (cases "statusIs s BatchStatusSubmitted")
  case False
  with assms show ?thesis by (simp add: ruleConfirm_def)
next
  case True
  show ?thesis
  proof (cases "extractBTCConfirmation header receipts")
    case None
    with assms show ?thesis by (simp add: ruleConfirm_def)
  next
    case (Some c)
    with True have r: "ruleConfirm header receipts s =
        snd (MarkConfirmed (BTCBlockHeight_conf c) (BTCTxID_conf c) (BTCTimestamp_conf c)
               (Number header) (Coinbase header) s)"
      by (simp add: ruleConfirm_def)
    show ?thesis unfolding r using assms by (rule MarkConfirmed_keeps)
  qed
qed

lemma ruleAnchor_keeps:
  assumes "endBlockAhead s"
  shows "endBlockAhead (ruleAnchor header receipts s) \<and>
         LastAnchoredBlock s \<le> LastAnchoredBlock (ruleAnchor header receipts s)"
proof -
  have "ruleAnchor header receipts s = s \<or>
        ruleAnchor header receipts s = snd (MarkAnchored (Number header) (Coinbase header) s)"
    by (simp add: ruleAnchor_def split: option.split)
  then show ?thesis
  proof
    assume "ruleAnchor header receipts s = s"
    with assms show ?thesis by simp
  next
    assume r: "ruleAnchor header receipts s =
        snd (MarkAnchored (Number header) (Coinbase header) s)"
    show ?thesis unfolding r using assms by (rule MarkAnchored_keeps)
  qed
qed

lemma applyTransitions_keeps:
  assumes "endBlockAhead s" and "applyTransitions te s header receipts = Some s'"
  shows "endBlockAhead s' \<and> LastAnchoredBlock s \<le> LastAnchoredBlock s'"
proof -
  from assms(2) obtain s1 where
    1: "ruleTrigger te header s = Some s1" and
    s': "s' = ruleAnchor header receipts
                (ruleConfirm header receipts (ruleSubmit header receipts s1))"
    by (auto simp: applyTransitions_def split: option.splits)
  let ?s2 = "ruleSubmit header receipts s1"
  let ?s3 = "ruleConfirm header receipts ?s2"
  from ruleTrigger_keeps [OF assms(1) 1]
  have a1: "endBlockAhead s1" and l1: "LastAnchoredBlock s1 = LastAnchoredBlock s" by simp_all
  from ruleSubmit_keeps [OF a1, of header receipts]
  have a2: "endBlockAhead ?s2" and l2: "LastAnchoredBlock ?s2 = LastAnchoredBlock s1"
    by simp_all
  from ruleConfirm_keeps [OF a2, of header receipts]
  have a3: "endBlockAhead ?s3" and l3: "LastAnchoredBlock ?s3 = LastAnchoredBlock ?s2"
    by simp_all
  from ruleAnchor_keeps [OF a3, of header receipts] l1 l2 l3 show ?thesis
    unfolding s' by simp
qed

lemma ProcessBlock_keeps:
  assumes "State parent = Some s" and "endBlockAhead s"
    and "ProcessBlock te header parent = Inr child"
  shows "\<exists>s'. State child = Some s' \<and> endBlockAhead s' \<and>
           LastAnchoredBlock s \<le> LastAnchoredBlock s'"
proof (cases "Enabled s")
  case False
  with assms show ?thesis by (auto simp: ProcessBlock_def NewSnapshot_def)
next
  case True
  with assms(1,3) obtain s' where
    a: "applyTransitions te s header (getReceipts te (Hash header) (Number header)) = Some s'"
    and c: "child = NewSnapshot (Number header) (Hash header) s'"
    by (auto simp: ProcessBlock_def split: option.splits)
  from applyTransitions_keeps [OF assms(2) a] c show ?thesis
    by (simp add: NewSnapshot_def)
qed

lemma chainSnapshot_endBlockAhead:
  "chainSnapshot snap \<Longrightarrow> \<exists>s. State snap = Some s \<and> endBlockAhead s"
proof (induction rule: chainSnapshot.induct)
  case (genesis sm genesisHash)
  show ?case
    by (simp add: GetGenesisSnapshot_def NewSnapshot_def endBlockAhead_NewOTSState)
next
  case (block parent te header child)
  then obtain s where "State parent = Some s" and "endBlockAhead s" by blast
  from ProcessBlock_keeps [OF this block(2)] show ?case by blast
qed

section \<open>The last anchored block along a chain\<close>

text \<open>
  C7. For every snapshot on a chain that starts at a genesis snapshot and every block
  for which \<open>ProcessBlock\<close> returns a child snapshot, the child's \<open>LastAnchoredBlock\<close> is
  at least the parent's.
\<close>

theorem lastAnchoredBlock_nondecreasing:
  assumes "chainSnapshot parent" and "ProcessBlock te header parent = Inr child"
  shows "State parent \<noteq> None \<and> State child \<noteq> None \<and>
         LastAnchoredBlock (the (State parent)) \<le> LastAnchoredBlock (the (State child))"
proof -
  from chainSnapshot_endBlockAhead [OF assms(1)] obtain s where
    s: "State parent = Some s" and a: "endBlockAhead s" by blast
  from ProcessBlock_keeps [OF s a assms(2)] s show ?thesis by auto
qed

text \<open>
  \<open>ProcessBlock\<close> does return a child for every snapshot of a chain and every header
  whose number is not 0 (for number 0 the end of the range wraps to the largest
  \<open>uint64\<close>).
\<close>

lemma handleTrigger_returns:
  assumes "Number header \<noteq> 0"
  shows "\<exists>s'. handleTrigger te s header = Some s'"
proof -
  from assms have "Number header - 1 \<noteq> - 1" by simp
  then have "calculateRootHash te (LastAnchoredBlock s + 1) (Number header - 1) = Some 0"
    by (rule calculateRootHash_returns)
  then show ?thesis by (simp add: handleTrigger_def Let_def)
qed

lemma ProcessBlock_returns:
  assumes "chainSnapshot parent" and "Number header \<noteq> 0"
  shows "\<exists>child. ProcessBlock te header parent = Inr child"
proof -
  from chainSnapshot_endBlockAhead [OF assms(1)] obtain s where
    s: "State parent = Some s" by blast
  from handleTrigger_returns [OF assms(2), of te s]
  have "\<exists>s1. ruleTrigger te header s = Some s1" by (simp add: ruleTrigger_def)
  then have "\<exists>s'. applyTransitions te s header (getReceipts te (Hash header) (Number header)) =
      Some s'"
    by (auto simp: applyTransitions_def)
  with s show ?thesis by (auto simp: ProcessBlock_def)
qed

section \<open>The logs of the three events\<close>

lemma sigs_distinct:
  "otsSubmittedSig \<noteq> otsConfirmedSig" "otsSubmittedSig \<noteq> anchoredSig"
  "otsConfirmedSig \<noteq> anchoredSig"
  by (simp_all add: otsSubmittedSig_eq otsConfirmedSig_eq anchoredSig_eq)

lemma hashUint64_hashBytes: "hashUint64 (hashBytes h) = ucast h"
  by (simp add: hashUint64_def)

lemma parse_submittedLog:
  "parseOTSSubmittedLog (submittedLog r d) = Some \<lparr>RootHash_sub = r, Digest = d\<rparr>"
  by (simp add: parseOTSSubmittedLog_def submittedLog_def slice_def)

lemma parse_confirmedLog:
  "parseOTSConfirmedLog (confirmedLog r a b c) =
     Some \<lparr>RootHash_conf = r, BTCBlockHeight_conf = ucast a,
           BTCTxID_conf = Bytes2Hex (hashBytes b), BTCTimestamp_conf = ucast c\<rparr>"
proof -
  have l: "slice (hashBytes a @ hashBytes b @ hashBytes c) 0 32 = hashBytes a"
    "slice (hashBytes a @ hashBytes b @ hashBytes c) 32 64 = hashBytes b"
    "slice (hashBytes a @ hashBytes b @ hashBytes c) 64 96 = hashBytes c"
    by (simp_all add: slice_def)
  show ?thesis
    by (simp add: parseOTSConfirmedLog_def confirmedLog_def l hashUint64_hashBytes)
qed

lemma valid_anchoredLog:
  "isValidAnchorLog (anchoredLog r a b c) batch = (r = RootHash batch)"
  by (simp add: isValidAnchorLog_def anchoredLog_def)

lemma parse_other_logs:
  "parseOTSSubmittedLog (confirmedLog r a b c) = None"
  "parseOTSSubmittedLog (anchoredLog r a b c) = None"
  "parseOTSConfirmedLog (submittedLog r d) = None"
  "parseOTSConfirmedLog (anchoredLog r a b c) = None"
  "isValidAnchorLog (submittedLog r d) batch = False"
  "isValidAnchorLog (confirmedLog r a b c) batch = False"
  using sigs_distinct
  by (simp_all add: parseOTSSubmittedLog_def parseOTSConfirmedLog_def isValidAnchorLog_def
        submittedLog_def confirmedLog_def anchoredLog_def)

lemma log_addresses:
  "Address (submittedLog r d) = copyrightRegistryAddr"
  "Address (confirmedLog r a b c) = copyrightRegistryAddr"
  "Address (anchoredLog r a b c) = copyrightRegistryAddr"
  by (simp_all add: submittedLog_def confirmedLog_def anchoredLog_def)

lemmas log_facts = parse_submittedLog parse_confirmedLog valid_anchoredLog parse_other_logs
  log_addresses

section \<open>One block through all four rules\<close>

lemma example_isTriggerBlock:
  "isTriggerBlock (testEngine exampleParent exampleReceipts) exampleHeader"
  by (simp add: isTriggerBlock_def testEngine_def exampleParent_def exampleHeader_def
        calendar_1970_01_01 calendar_1970_01_02 Let_def TriggerHourUTC_def)

lemma example_trigger:
  "ruleTrigger (testEngine exampleParent exampleReceipts) exampleHeader (NewOTSState True) =
     Some exampleTriggered"
proof -
  have c: "CanTrigger (NewOTSState True)"
    by (simp add: CanTrigger_def HasActiveBatch_def NewOTSState_def)
  have r: "calculateRootHash (testEngine exampleParent exampleReceipts) 1 2 = Some 0"
    by (rule calculateRootHash_returns) simp
  have h: "handleTrigger (testEngine exampleParent exampleReceipts) (NewOTSState True)
             exampleHeader =
           Some (snd (Trigger 1 2 3 0x1234 0 (NewOTSState True)))"
    using r by (simp add: handleTrigger_def Let_def exampleHeader_def NewOTSState_def)
  have t: "snd (Trigger 1 2 3 0x1234 0 (NewOTSState True)) = exampleTriggered"
    using c by (simp add: Trigger_def NewOTSState_def exampleTriggered_def triggeredBatch_def)
  show ?thesis
    using c example_isTriggerBlock h t by (simp add: ruleTrigger_def)
qed

lemma example_extracts:
  "extractOTSSubmission exampleHeader exampleReceipts =
     Some \<lparr>RootHash_sub = 0, Digest = 0xaabb\<rparr>"
  "extractBTCConfirmation exampleHeader exampleReceipts =
     Some \<lparr>RootHash_conf = 0, BTCBlockHeight_conf = 800000,
           BTCTxID_conf = Bytes2Hex (hashBytes 0x7478), BTCTimestamp_conf = 1700000000\<rparr>"
  "RootHash batch = 0 \<Longrightarrow> hasValidAnchorTx exampleHeader exampleReceipts batch"
  by (simp_all add: exampleReceipts_def log_facts)

lemma example_header_fields:
  "Number exampleHeader = 3" "Coinbase exampleHeader = 0x1234" "Hash exampleHeader = 0xb3"
  by (simp_all add: exampleHeader_def)

lemma example_submit: "ruleSubmit exampleHeader exampleReceipts exampleTriggered = exampleSubmitted"
  by (simp add: ruleSubmit_def statusIs_def example_extracts MarkSubmitted_def
        exampleTriggered_def exampleSubmitted_def triggeredBatch_def example_header_fields)

lemma example_confirm: "ruleConfirm exampleHeader exampleReceipts exampleSubmitted = exampleConfirmed"
  by (simp add: ruleConfirm_def statusIs_def example_extracts MarkConfirmed_def
        exampleSubmitted_def exampleConfirmed_def triggeredBatch_def example_header_fields)

lemma example_anchor: "ruleAnchor exampleHeader exampleReceipts exampleConfirmed = exampleAnchored"
proof -
  have "hasValidAnchorTx exampleHeader exampleReceipts
          ((triggeredBatch 1 2 0)
            \<lparr>OTSDigest := 0xaabb, SubmittedAt := 3, SubmittedBy := 0x1234,
             BTCBlockHeight := 800000, BTCTxID := Bytes2Hex (hashBytes 0x7478),
             BTCTimestamp := 1700000000, ConfirmedAt := 3, ConfirmedBy := 0x1234,
             Status := BatchStatusConfirmed\<rparr>)"
    by (rule example_extracts) (simp add: triggeredBatch_def)
  then show ?thesis
    by (simp add: ruleAnchor_def MarkAnchored_def exampleConfirmed_def exampleAnchored_def
          triggeredBatch_def)
qed

lemma example_applyTransitions:
  "applyTransitions (testEngine exampleParent exampleReceipts) (NewOTSState True) exampleHeader
     exampleReceipts = Some exampleAnchored"
  by (simp add: applyTransitions_def example_trigger example_submit example_confirm
        example_anchor)

lemma example_ProcessBlock:
  "ProcessBlock (testEngine exampleParent exampleReceipts) exampleHeader
     (GetGenesisSnapshot emptySnapshots 0xb2) = Inr (NewSnapshot 3 0xb3 exampleAnchored)"
proof -
  have g: "GetGenesisSnapshot emptySnapshots 0xb2 = NewSnapshot 0 0xb2 (NewOTSState True)"
    by (simp add: GetGenesisSnapshot_def emptySnapshots_def)
  have r: "getReceipts (testEngine exampleParent exampleReceipts) h n = exampleReceipts"
    for h n
    by (simp add: testEngine_def)
  have e: "Enabled (NewOTSState True)" by (simp add: NewOTSState_def)
  show ?thesis
    unfolding g ProcessBlock_def
    by (simp add: NewSnapshot_def r e example_applyTransitions example_header_fields)
qed

text \<open>
  The theorem of C7 at the genesis snapshot and the example block, which anchors blocks
  1 to 2: \<open>LastAnchoredBlock\<close> goes from 0 to 2.
\<close>

theorem lastAnchoredBlock_nondecreasing_witness:
  "chainSnapshot (GetGenesisSnapshot emptySnapshots 0xb2) \<and>
   ProcessBlock (testEngine exampleParent exampleReceipts) exampleHeader
     (GetGenesisSnapshot emptySnapshots 0xb2) = Inr (NewSnapshot 3 0xb3 exampleAnchored) \<and>
   LastAnchoredBlock (the (State (GetGenesisSnapshot emptySnapshots 0xb2))) = 0 \<and>
   LastAnchoredBlock (the (State (NewSnapshot 3 0xb3 exampleAnchored))) = 2 \<and>
   LastAnchoredBlock (the (State (GetGenesisSnapshot emptySnapshots 0xb2))) \<le>
     LastAnchoredBlock (the (State (NewSnapshot 3 0xb3 exampleAnchored)))"
proof -
  have c: "chainSnapshot (GetGenesisSnapshot emptySnapshots 0xb2)"
    by (rule chainSnapshot.genesis)
  have 0: "LastAnchoredBlock (the (State (GetGenesisSnapshot emptySnapshots 0xb2))) = 0"
    by (simp add: GetGenesisSnapshot_def NewSnapshot_def NewOTSState_def)
  have 2: "LastAnchoredBlock (the (State (NewSnapshot 3 0xb3 exampleAnchored))) = 2"
    by (simp add: NewSnapshot_def exampleAnchored_def)
  from lastAnchoredBlock_nondecreasing [OF c example_ProcessBlock] c example_ProcessBlock 0 2
  show ?thesis by blast
qed

section \<open>How many rules fire in one block\<close>

lemma rule_guards:
  "ruleTrigger te header s = Some s' \<Longrightarrow> s' \<noteq> s \<Longrightarrow> CanTrigger s"
  "ruleSubmit header receipts s \<noteq> s \<Longrightarrow> statusIs s BatchStatusTriggered"
  "ruleConfirm header receipts s \<noteq> s \<Longrightarrow> statusIs s BatchStatusSubmitted"
  "ruleAnchor header receipts s \<noteq> s \<Longrightarrow> statusIs s BatchStatusConfirmed"
proof -
  show "ruleTrigger te header s = Some s' \<Longrightarrow> s' \<noteq> s \<Longrightarrow> CanTrigger s"
    by (cases "CanTrigger s \<and> isTriggerBlock te header") (auto simp: ruleTrigger_def)
  show "ruleSubmit header receipts s \<noteq> s \<Longrightarrow> statusIs s BatchStatusTriggered"
    by (cases "statusIs s BatchStatusTriggered") (auto simp: ruleSubmit_def)
  show "ruleConfirm header receipts s \<noteq> s \<Longrightarrow> statusIs s BatchStatusSubmitted"
    by (cases "statusIs s BatchStatusSubmitted") (auto simp: ruleConfirm_def)
  show "ruleAnchor header receipts s \<noteq> s \<Longrightarrow> statusIs s BatchStatusConfirmed"
    by (cases "CurrentBatch s") (auto simp: ruleAnchor_def statusIs_def split: if_splits)
qed

lemma guards_exclusive:
  "\<not> (CanTrigger s \<and> statusIs s BatchStatusTriggered)"
  "\<not> (CanTrigger s \<and> statusIs s BatchStatusSubmitted)"
  "\<not> (CanTrigger s \<and> statusIs s BatchStatusConfirmed)"
  "\<not> (statusIs s BatchStatusTriggered \<and> statusIs s BatchStatusSubmitted)"
  "\<not> (statusIs s BatchStatusTriggered \<and> statusIs s BatchStatusConfirmed)"
  "\<not> (statusIs s BatchStatusSubmitted \<and> statusIs s BatchStatusConfirmed)"
  by (cases "CurrentBatch s"; simp add: CanTrigger_def HasActiveBatch_def statusIs_def)+

text \<open>
  C2, as the code has it. Each rule changes a state only under its guard (no active
  batch, or the status Triggered, Submitted, Confirmed), and on one state at most one
  of the four guards holds; so at most one rule can change any given state. The rules
  of one block are applied in sequence though, each to the state its predecessor left
  (see the counterexample).
\<close>

theorem rules_change_only_under_exclusive_guards:
  "(ruleTrigger te header s = Some s' \<and> s' \<noteq> s \<longrightarrow> CanTrigger s) \<and>
   (ruleSubmit header receipts s \<noteq> s \<longrightarrow> statusIs s BatchStatusTriggered) \<and>
   (ruleConfirm header receipts s \<noteq> s \<longrightarrow> statusIs s BatchStatusSubmitted) \<and>
   (ruleAnchor header receipts s \<noteq> s \<longrightarrow> statusIs s BatchStatusConfirmed) \<and>
   \<not> (CanTrigger s \<and> statusIs s BatchStatusTriggered) \<and>
   \<not> (CanTrigger s \<and> statusIs s BatchStatusSubmitted) \<and>
   \<not> (CanTrigger s \<and> statusIs s BatchStatusConfirmed) \<and>
   \<not> (statusIs s BatchStatusTriggered \<and> statusIs s BatchStatusSubmitted) \<and>
   \<not> (statusIs s BatchStatusTriggered \<and> statusIs s BatchStatusConfirmed) \<and>
   \<not> (statusIs s BatchStatusSubmitted \<and> statusIs s BatchStatusConfirmed)"
  using rule_guards(1) [of te header s s'] rule_guards(2-4) [of header receipts s]
    guards_exclusive [of s]
  by blast

lemma example_states_differ:
  "exampleTriggered \<noteq> NewOTSState True" "exampleSubmitted \<noteq> exampleTriggered"
  "exampleConfirmed \<noteq> exampleSubmitted" "exampleAnchored \<noteq> exampleConfirmed"
proof -
  have "CurrentBatch exampleTriggered \<noteq> CurrentBatch (NewOTSState True)"
    by (simp add: exampleTriggered_def NewOTSState_def)
  then show "exampleTriggered \<noteq> NewOTSState True" by auto
  have "statusIs exampleSubmitted BatchStatusSubmitted"
    "\<not> statusIs exampleTriggered BatchStatusSubmitted"
    by (simp_all add: statusIs_def exampleSubmitted_def exampleTriggered_def triggeredBatch_def)
  then show "exampleSubmitted \<noteq> exampleTriggered" by auto
  have "statusIs exampleConfirmed BatchStatusConfirmed"
    "\<not> statusIs exampleSubmitted BatchStatusConfirmed"
    by (simp_all add: statusIs_def exampleSubmitted_def exampleConfirmed_def triggeredBatch_def)
  then show "exampleConfirmed \<noteq> exampleSubmitted" by auto
  have "CurrentBatch exampleAnchored \<noteq> CurrentBatch exampleConfirmed"
    by (simp add: exampleAnchored_def exampleConfirmed_def)
  then show "exampleAnchored \<noteq> exampleConfirmed" by auto
qed

text \<open>The theorem at the four states of the example, each changed by its rule.\<close>

theorem rules_change_only_under_exclusive_guards_witness:
  "ruleTrigger (testEngine exampleParent exampleReceipts) exampleHeader (NewOTSState True) =
     Some exampleTriggered \<and> exampleTriggered \<noteq> NewOTSState True \<and>
   CanTrigger (NewOTSState True) \<and>
   ruleSubmit exampleHeader exampleReceipts exampleTriggered \<noteq> exampleTriggered \<and>
   statusIs exampleTriggered BatchStatusTriggered \<and>
   ruleConfirm exampleHeader exampleReceipts exampleSubmitted \<noteq> exampleSubmitted \<and>
   statusIs exampleSubmitted BatchStatusSubmitted \<and>
   ruleAnchor exampleHeader exampleReceipts exampleConfirmed \<noteq> exampleConfirmed \<and>
   statusIs exampleConfirmed BatchStatusConfirmed"
proof -
  note d = example_states_differ
  have 1: "ruleTrigger (testEngine exampleParent exampleReceipts) exampleHeader
      (NewOTSState True) = Some exampleTriggered \<and> exampleTriggered \<noteq> NewOTSState True"
    using example_trigger d(1) by simp
  have 2: "ruleSubmit exampleHeader exampleReceipts exampleTriggered \<noteq> exampleTriggered"
    using d(2) by (simp add: example_submit)
  have 3: "ruleConfirm exampleHeader exampleReceipts exampleSubmitted \<noteq> exampleSubmitted"
    using d(3) by (simp add: example_confirm)
  have 4: "ruleAnchor exampleHeader exampleReceipts exampleConfirmed \<noteq> exampleConfirmed"
    using d(4) by (simp add: example_anchor)
  note g = rules_change_only_under_exclusive_guards
    [where te = "testEngine exampleParent exampleReceipts" and header = exampleHeader
       and receipts = exampleReceipts]
  have a: "CanTrigger (NewOTSState True)"
    using 1 g [where s = "NewOTSState True" and s' = exampleTriggered] by simp
  have b: "statusIs exampleTriggered BatchStatusTriggered"
    using 2 g [where s = exampleTriggered and s' = exampleTriggered] by simp
  have c: "statusIs exampleSubmitted BatchStatusSubmitted"
    using 3 g [where s = exampleSubmitted and s' = exampleTriggered] by simp
  have d: "statusIs exampleConfirmed BatchStatusConfirmed"
    using 4 g [where s = exampleConfirmed and s' = exampleTriggered] by simp
  show ?thesis
    using 1 2 3 4 a b c d by simp
qed

text \<open>
  C2 as claimed fails: in the one call of \<open>applyTransitions\<close> on the genesis state and
  the example block, all four rules change the state in turn.
\<close>

theorem applyTransitions_fires_four_rules:
  "applyTransitions (testEngine exampleParent exampleReceipts) (NewOTSState True) exampleHeader
     exampleReceipts = Some exampleAnchored \<and>
   ruleTrigger (testEngine exampleParent exampleReceipts) exampleHeader (NewOTSState True) =
     Some exampleTriggered \<and> exampleTriggered \<noteq> NewOTSState True \<and>
   ruleSubmit exampleHeader exampleReceipts exampleTriggered = exampleSubmitted \<and>
   exampleSubmitted \<noteq> exampleTriggered \<and>
   ruleConfirm exampleHeader exampleReceipts exampleSubmitted = exampleConfirmed \<and>
   exampleConfirmed \<noteq> exampleSubmitted \<and>
   ruleAnchor exampleHeader exampleReceipts exampleConfirmed = exampleAnchored \<and>
   exampleAnchored \<noteq> exampleConfirmed"
  using example_applyTransitions example_trigger example_submit example_confirm example_anchor
    example_states_differ
  by blast

section \<open>Events whose root hash is not the batch's\<close>

lemma ruleAnchor_fires_only_on_match:
  assumes "ruleAnchor header receipts s \<noteq> s"
  shows "\<exists>batch. CurrentBatch s = Some batch \<and> hasValidAnchorTx header receipts batch"
  using assms by (cases "CurrentBatch s") (auto simp: ruleAnchor_def split: if_splits)

lemma anchorInLogs_match:
  "anchorInLogs logs batch \<Longrightarrow>
     \<exists>l \<in> set logs. Address l = copyrightRegistryAddr \<and> 2 \<le> length (Topics l) \<and>
       Topics l ! 0 = anchoredSig \<and> Topics l ! 1 = RootHash batch"
  by (induction logs) (auto simp: isValidAnchorLog_def split: if_splits)

lemma hasValidAnchorTx_match:
  "hasValidAnchorTx header receipts batch \<Longrightarrow>
     \<exists>receipt \<in> set receipts. ReceiptStatus receipt = ReceiptStatusSuccessful \<and>
       (\<exists>l \<in> set (Logs receipt). Address l = copyrightRegistryAddr \<and>
          2 \<le> length (Topics l) \<and> Topics l ! 0 = anchoredSig \<and> Topics l ! 1 = RootHash batch)"
proof (induction receipts)
  case Nil
  then show ?case by simp
next
  case (Cons a rs)
  show ?case
  proof (cases "ReceiptStatus a = ReceiptStatusSuccessful \<and> anchorInLogs (Logs a) batch")
    case True
    then show ?thesis using anchorInLogs_match [of "Logs a" batch] by simp
  next
    case False
    then have "hasValidAnchorTx header rs batch"
      using Cons.prems by (auto split: if_splits)
    then show ?thesis using Cons.IH by simp
  qed
qed

text \<open>
  C1. The Anchor rule does fire only for a successful receipt with an Anchored event
  whose root hash topic is the batch's (\<open>ruleAnchor_fires_only_on_match\<close>,
  \<open>hasValidAnchorTx_match\<close>). The Submit rule does not compare the topic: on the
  triggered batch with root 0 and a receipt whose OTSSubmitted event names root 1, the
  block marks the batch submitted.
\<close>

theorem submit_fires_on_mismatched_rootHash:
  "extractOTSSubmission exampleHeader mismatchedReceipts =
     Some \<lparr>RootHash_sub = 1, Digest = 0xaabb\<rparr> \<and>
   CurrentBatch exampleTriggered = Some (triggeredBatch 1 2 0) \<and>
   RootHash (triggeredBatch 1 2 0) = 0 \<and>
   applyTransitions (orphanEngine mismatchedReceipts) exampleTriggered exampleHeader
     mismatchedReceipts = Some exampleSubmitted"
proof -
  have e: "extractOTSSubmission exampleHeader mismatchedReceipts =
      Some \<lparr>RootHash_sub = 1, Digest = 0xaabb\<rparr>"
    by (simp add: mismatchedReceipts_def log_facts)
  have c: "extractBTCConfirmation exampleHeader mismatchedReceipts = None"
    by (simp add: mismatchedReceipts_def log_facts)
  have a: "\<not> hasValidAnchorTx exampleHeader mismatchedReceipts batch" for batch
    by (simp add: mismatchedReceipts_def log_facts)
  have t: "ruleTrigger (orphanEngine mismatchedReceipts) exampleHeader exampleTriggered =
      Some exampleTriggered"
    by (simp add: ruleTrigger_def isTriggerBlock_def orphanEngine_def)
  have s: "ruleSubmit exampleHeader mismatchedReceipts exampleTriggered = exampleSubmitted"
    by (simp add: ruleSubmit_def statusIs_def e MarkSubmitted_def exampleTriggered_def
          exampleSubmitted_def triggeredBatch_def example_header_fields)
  have f: "ruleConfirm exampleHeader mismatchedReceipts exampleSubmitted = exampleSubmitted"
    by (simp add: ruleConfirm_def c)
  have g: "ruleAnchor exampleHeader mismatchedReceipts exampleSubmitted = exampleSubmitted"
    by (simp add: ruleAnchor_def exampleSubmitted_def)
  have r: "RootHash (triggeredBatch 1 2 0) = 0" by (simp add: triggeredBatch_def)
  have b: "CurrentBatch exampleTriggered = Some (triggeredBatch 1 2 0)"
    by (simp add: exampleTriggered_def)
  show ?thesis
    using e b r by (simp add: applyTransitions_def t s f g)
qed

section \<open>Validation of system transactions by the consensus manager\<close>

text \<open>A snapshot that \<open>GetSnapshot\<close> returns is a copy, so it has a state.\<close>

lemma Copy_snapshot_state:
  "Copy_snapshot s = Inr snap \<Longrightarrow> State snap \<noteq> None"
  by (cases "State s") (auto simp: Copy_snapshot_def)

lemma GetSnapshot_state:
  assumes "GetSnapshot sm h = Inr (Inr snap)"
  shows "State snap \<noteq> None"
proof (cases "cache sm h")
  case (Some cached)
  with assms have "Copy_snapshot cached = Inr snap"
    by (cases "Copy_snapshot cached") (simp_all add: GetSnapshot_def)
  then show ?thesis by (rule Copy_snapshot_state)
next
  case None
  show ?thesis
  proof (cases "loadFromDB sm h")
    case (Inl err)
    with None assms show ?thesis by (simp add: GetSnapshot_def)
  next
    case (Inr loaded)
    with None assms have "Copy_snapshot loaded = Inr snap"
      by (cases "Copy_snapshot loaded") (simp_all add: GetSnapshot_def)
    then show ?thesis by (rule Copy_snapshot_state)
  qed
qed

lemma GetSnapshot_exampleManager:
  "GetSnapshot (snapshots exampleManager) 0xb2 =
     Inr (Inr (NewSnapshot 2 0xb2 exampleTriggered))"
  by (simp add: exampleManager_def cachedSnapshot_def GetSnapshot_def NewSnapshot_def
        Copy_snapshot_def)

lemma GetSnapshot_emptyManager:
  "GetSnapshot (snapshots emptyManager) h = Inr (Inl ErrSnapshotNotFound)"
  by (simp add: emptyManager_def emptySnapshots_def GetSnapshot_def loadFromDB_def)

lemma GetSnapshot_nilStateManager:
  "GetSnapshot (snapshots nilStateManager) 0xb2 = Inl NilDereference"
  by (simp add: nilStateManager_def GetSnapshot_def loadFromDB_def Copy_snapshot_def)

lemma strangerSubmittedTx_data:
  "length (TxData strangerSubmittedTx) = 68"
  "slice (TxData strangerSubmittedTx) 0 4 = OTSSubmittedSelector"
  "slice (TxData strangerSubmittedTx) 4 36 = hashBytes 0"
proof -
  have l: "length OTSSubmittedSelector = 4" by (simp add: OTSSubmittedSelector_eq)
  have d: "TxData strangerSubmittedTx = OTSSubmittedSelector @ hashBytes 0 @ hashBytes 0xaabb"
    by (simp add: strangerSubmittedTx_def NewTransaction_def)
  show "length (TxData strangerSubmittedTx) = 68"
    "slice (TxData strangerSubmittedTx) 0 4 = OTSSubmittedSelector"
    "slice (TxData strangerSubmittedTx) 4 36 = hashBytes 0"
    unfolding d using layout3 [OF l length_hashBytes length_hashBytes] by simp_all
qed

lemma matchSelector_refl: "matchSelector OTSSubmittedSelector OTSSubmittedSelector"
  by (simp add: matchSelector_def OTSSubmittedSelector_eq)

lemma strangerSubmittedTx_recognized: "IsOTSSubmittedTx strangerSubmittedTx"
  by (simp add: IsOTSSubmittedTx_def strangerSubmittedTx_data matchSelector_refl)

lemma strangerSubmittedTx_decodes:
  "DecodeOTSSubmittedTx strangerSubmittedTx =
     Inr \<lparr>RootHash_sp = 0, OTSDigest_sp = BytesToHash (slice (TxData strangerSubmittedTx) 36 68)\<rparr>"
  by (simp add: DecodeOTSSubmittedTx_def strangerSubmittedTx_data matchSelector_refl)

lemma strangerSubmittedTx_accepted:
  "ValidateOTSSystemTx exampleManager strangerSubmittedTx 0xb2 = Inr None"
proof -
  have e: "enabled exampleManager" by (simp add: exampleManager_def)
  have v: "validateOTSSubmittedTx strangerSubmittedTx exampleTriggered = None"
    by (simp add: validateOTSSubmittedTx_def strangerSubmittedTx_decodes exampleTriggered_def
          triggeredBatch_def)
  show ?thesis
    by (simp add: ValidateOTSSystemTx_def e GetSnapshot_exampleManager NewSnapshot_def
          strangerSubmittedTx_recognized v)
qed

text \<open>
  The root hash and status half of C6 holds whenever the manager is enabled: a
  recognized transaction is accepted only if the parent snapshot has a state with a
  current batch of the status the selector stands for and of the root hash in the
  calldata.
\<close>

lemma accepted_system_tx_matches_batch:
  assumes "enabled m" and "IsOTSSystemTx tx"
    and "ValidateOTSSystemTx m tx parentHash = Inr None"
  shows "\<exists>snap state batch.
           GetSnapshot (snapshots m) parentHash = Inr (Inr snap) \<and> State snap = Some state \<and>
           CurrentBatch state = Some batch \<and> Status batch = expectedStatus tx \<and>
           decodedRootHash tx = RootHash batch"
proof -
  from assms(1,3) obtain r where r: "GetSnapshot (snapshots m) parentHash = Inr r"
    by (cases "GetSnapshot (snapshots m) parentHash") (simp_all add: ValidateOTSSystemTx_def)
  with assms(1,3) obtain snap where snap: "GetSnapshot (snapshots m) parentHash = Inr (Inr snap)"
    by (cases r) (simp_all add: ValidateOTSSystemTx_def)
  with assms(1,3) obtain state where state: "State snap = Some state"
    by (cases "State snap") (simp_all add: ValidateOTSSystemTx_def)
  have "ValidateOTSSystemTx m tx parentHash =
      Inr (if IsOTSSubmittedTx tx then validateOTSSubmittedTx tx state
           else if IsOTSConfirmedTx tx then validateOTSConfirmedTx tx state
           else if IsAnchorTx tx then validateAnchorTx tx state
           else None)"
    using assms(1) snap state by (simp add: ValidateOTSSystemTx_def)
  with assms(3) have v: "None =
      (if IsOTSSubmittedTx tx then validateOTSSubmittedTx tx state
       else if IsOTSConfirmedTx tx then validateOTSConfirmedTx tx state
       else if IsAnchorTx tx then validateAnchorTx tx state
       else None)"
    by simp
  have "\<exists>batch. CurrentBatch state = Some batch \<and> Status batch = expectedStatus tx \<and>
          decodedRootHash tx = RootHash batch"
  proof (cases "IsOTSSubmittedTx tx")
    case True
    with v have n: "validateOTSSubmittedTx tx state = None" by simp
    then obtain batch where b: "CurrentBatch state = Some batch"
      by (cases "CurrentBatch state") (simp_all add: validateOTSSubmittedTx_def)
    from n b have s: "Status batch = BatchStatusTriggered"
      by (simp add: validateOTSSubmittedTx_def split: if_splits)
    from n b s obtain params where p: "DecodeOTSSubmittedTx tx = Inr params"
      by (cases "DecodeOTSSubmittedTx tx") (simp_all add: validateOTSSubmittedTx_def)
    from n b s p have r: "RootHash_sp params = RootHash batch"
      by (simp add: validateOTSSubmittedTx_def split: if_splits)
    from p have "RootHash_sp params = BytesToHash (slice (TxData tx) 4 36)"
      by (auto simp: DecodeOTSSubmittedTx_def Let_def split: if_splits)
    with True b s r show ?thesis by (simp add: expectedStatus_def decodedRootHash_def)
  next
    case notSub: False
    show ?thesis
    proof (cases "IsOTSConfirmedTx tx")
      case True
      with notSub v have n: "validateOTSConfirmedTx tx state = None" by simp
      then obtain batch where b: "CurrentBatch state = Some batch"
        by (cases "CurrentBatch state") (simp_all add: validateOTSConfirmedTx_def)
      from n b have s: "Status batch = BatchStatusSubmitted"
        by (simp add: validateOTSConfirmedTx_def split: if_splits)
      from n b s obtain params where p: "DecodeOTSConfirmedTx tx = Inr params"
        by (cases "DecodeOTSConfirmedTx tx") (simp_all add: validateOTSConfirmedTx_def)
      from n b s p have r: "RootHash_cp params = RootHash batch"
        by (simp add: validateOTSConfirmedTx_def split: if_splits)
      from p have "RootHash_cp params = BytesToHash (slice (TxData tx) 4 36)"
        by (auto simp: DecodeOTSConfirmedTx_def Let_def split: if_splits)
      with True notSub b s r show ?thesis by (simp add: expectedStatus_def decodedRootHash_def)
    next
      case notConf: False
      with notSub assms(2) have a: "IsAnchorTx tx" by (simp add: IsOTSSystemTx_def)
      with notSub notConf v have n: "validateAnchorTx tx state = None" by simp
      then obtain batch where b: "CurrentBatch state = Some batch"
        by (cases "CurrentBatch state") (simp_all add: validateAnchorTx_def)
      from n b have s: "Status batch = BatchStatusConfirmed"
        by (simp add: validateAnchorTx_def split: if_splits)
      from n b s obtain decoded where p: "DecodeCalldata (TxData tx) = Inr decoded"
        by (cases "DecodeCalldata (TxData tx)") (simp_all add: validateAnchorTx_def)
      from n b s p have r: "RootHash_d decoded = RootHash batch"
        by (simp add: validateAnchorTx_def split: if_splits)
      from p have "RootHash_d decoded = BytesToHash (slice (TxData tx) 68 100)"
        by (auto simp: DecodeCalldata_def split: if_splits)
      with notSub notConf b s r show ?thesis by (simp add: expectedStatus_def decodedRootHash_def)
    qed
  qed
  with snap state show ?thesis by simp
qed

lemma ValidateOTSSystemTx_ignores_sender:
  "ValidateOTSSystemTx m (tx\<lparr>TxFrom := a\<rparr>) parentHash = ValidateOTSSystemTx m tx parentHash"
proof -
  let ?tx = "tx\<lparr>TxFrom := a\<rparr>"
  have i: "IsOTSSubmittedTx ?tx = IsOTSSubmittedTx tx" "IsOTSConfirmedTx ?tx = IsOTSConfirmedTx tx"
    "IsAnchorTx ?tx = IsAnchorTx tx"
    by (simp_all add: IsOTSSubmittedTx_def IsOTSConfirmedTx_def IsAnchorTx_def)
  have d: "DecodeOTSSubmittedTx ?tx = DecodeOTSSubmittedTx tx"
    "DecodeOTSConfirmedTx ?tx = DecodeOTSConfirmedTx tx"
    by (simp_all add: DecodeOTSSubmittedTx_def DecodeOTSConfirmedTx_def)
  have v: "validateOTSSubmittedTx ?tx state = validateOTSSubmittedTx tx state"
    "validateOTSConfirmedTx ?tx state = validateOTSConfirmedTx tx state"
    "validateAnchorTx ?tx state = validateAnchorTx tx state" for state
    by (cases "CurrentBatch state";
        simp add: validateOTSSubmittedTx_def validateOTSConfirmedTx_def validateAnchorTx_def d)+
  show ?thesis
    by (simp add: ValidateOTSSystemTx_def i v split: sum.split option.split)
qed

text \<open>
  C6. The manager compares the root hash and the status
  (\<open>accepted_system_tx_matches_batch\<close>), but it never reads the sender of the
  transaction (\<open>ValidateOTSSystemTx_ignores_sender\<close>): the enabled manager whose parent
  snapshot holds a triggered batch with root 0 accepts the otsSubmitted transaction for
  root 0 that \<open>0x5678\<close> sent, in a block whose coinbase is \<open>0x1234\<close>.
\<close>

theorem ValidateOTSSystemTx_accepts_stranger:
  "enabled exampleManager \<and> IsOTSSubmittedTx strangerSubmittedTx \<and>
   TxFrom strangerSubmittedTx = Some 0x5678 \<and> Coinbase exampleHeader = 0x1234 \<and>
   ParentHash exampleHeader = 0xb2 \<and>
   ValidateOTSSystemTx exampleManager strangerSubmittedTx (ParentHash exampleHeader) = Inr None"
proof -
  have "TxFrom strangerSubmittedTx = Some 0x5678"
    by (simp add: strangerSubmittedTx_def)
  moreover have "Coinbase exampleHeader = 0x1234" "ParentHash exampleHeader = 0xb2"
    by (simp_all add: exampleHeader_def)
  moreover have "enabled exampleManager" by (simp add: exampleManager_def)
  ultimately show ?thesis
    using strangerSubmittedTx_recognized strangerSubmittedTx_accepted by simp
qed

lemma plainTx_not_recognized: "\<not> IsOTSSystemTx plainTx"
  by (simp add: IsOTSSystemTx_def IsOTSSubmittedTx_def IsOTSConfirmedTx_def IsAnchorTx_def
        plainTx_def NewTransaction_def)

text \<open>
  C10, as the code has it. A disabled manager accepts every transaction. An enabled one
  calls \<open>GetSnapshot\<close> on the parent hash before it looks at the selector, and what
  that call does decides for every transaction, recognized or not: when it panics
  (the stored snapshot has a nil state, which \<open>Copy\<close> dereferences) so does the
  validation, and when it returns an error the validation returns that error. When it
  returns a snapshot, a transaction that matches none of the three selectors is
  accepted.
\<close>

theorem ValidateOTSSystemTx_unrecognized:
  "(\<not> enabled m \<longrightarrow> ValidateOTSSystemTx m tx parentHash = Inr None) \<and>
   (enabled m \<and> GetSnapshot (snapshots m) parentHash = Inl f \<longrightarrow>
      ValidateOTSSystemTx m tx parentHash = Inl f) \<and>
   (enabled m \<and> GetSnapshot (snapshots m) parentHash = Inr (Inl err) \<longrightarrow>
      ValidateOTSSystemTx m tx parentHash = Inr (Some err)) \<and>
   (enabled m \<and> GetSnapshot (snapshots m) parentHash = Inr (Inr snap) \<and>
    \<not> IsOTSSystemTx tx \<longrightarrow>
      ValidateOTSSystemTx m tx parentHash = Inr None)"
proof (intro conjI impI)
  assume "\<not> enabled m"
  then show "ValidateOTSSystemTx m tx parentHash = Inr None"
    by (simp add: ValidateOTSSystemTx_def)
next
  assume "enabled m \<and> GetSnapshot (snapshots m) parentHash = Inl f"
  then show "ValidateOTSSystemTx m tx parentHash = Inl f"
    by (simp add: ValidateOTSSystemTx_def)
next
  assume "enabled m \<and> GetSnapshot (snapshots m) parentHash = Inr (Inl err)"
  then show "ValidateOTSSystemTx m tx parentHash = Inr (Some err)"
    by (simp add: ValidateOTSSystemTx_def)
next
  assume a: "enabled m \<and> GetSnapshot (snapshots m) parentHash = Inr (Inr snap) \<and>
    \<not> IsOTSSystemTx tx"
  then obtain state where "State snap = Some state"
    using GetSnapshot_state [of "snapshots m" parentHash snap] by auto
  with a show "ValidateOTSSystemTx m tx parentHash = Inr None"
    by (simp add: ValidateOTSSystemTx_def IsOTSSystemTx_def)
qed

text \<open>
  The theorem on the plain transfer and on the recognized otsSubmitted transaction: at
  a disabled manager, at the manager whose stored snapshot has a nil state, at the
  manager without snapshots, and at the example manager.
\<close>

theorem ValidateOTSSystemTx_unrecognized_witness:
  "\<not> enabled (emptyManager\<lparr>enabled := False\<rparr>) \<and>
   ValidateOTSSystemTx (emptyManager\<lparr>enabled := False\<rparr>) plainTx 0xb2 = Inr None \<and>
   enabled nilStateManager \<and>
   GetSnapshot (snapshots nilStateManager) 0xb2 = Inl NilDereference \<and>
   ValidateOTSSystemTx nilStateManager plainTx 0xb2 = Inl NilDereference \<and>
   ValidateOTSSystemTx nilStateManager strangerSubmittedTx 0xb2 = Inl NilDereference \<and>
   enabled emptyManager \<and>
   GetSnapshot (snapshots emptyManager) 0xb2 = Inr (Inl ErrSnapshotNotFound) \<and>
   ValidateOTSSystemTx emptyManager plainTx 0xb2 = Inr (Some ErrSnapshotNotFound) \<and>
   ValidateOTSSystemTx emptyManager strangerSubmittedTx 0xb2 = Inr (Some ErrSnapshotNotFound) \<and>
   enabled exampleManager \<and>
   GetSnapshot (snapshots exampleManager) 0xb2 =
     Inr (Inr (NewSnapshot 2 0xb2 exampleTriggered)) \<and>
   \<not> IsOTSSystemTx plainTx \<and>
   ValidateOTSSystemTx exampleManager plainTx 0xb2 = Inr None"
proof -
  note t = ValidateOTSSystemTx_unrecognized
  have d: "\<not> enabled (emptyManager\<lparr>enabled := False\<rparr>)" by simp
  have n: "enabled nilStateManager" by (simp add: nilStateManager_def)
  have e: "enabled emptyManager" by (simp add: emptyManager_def)
  have x: "enabled exampleManager" by (simp add: exampleManager_def)
  note gn = GetSnapshot_nilStateManager
  note ge = GetSnapshot_emptyManager [of "0xb2"]
  note gx = GetSnapshot_exampleManager
  note p = plainTx_not_recognized
  have 1: "ValidateOTSSystemTx (emptyManager\<lparr>enabled := False\<rparr>) plainTx 0xb2 = Inr None"
    using d t [where m = "emptyManager\<lparr>enabled := False\<rparr>" and tx = plainTx
        and parentHash = "0xb2"]
    by blast
  have 2: "ValidateOTSSystemTx nilStateManager plainTx 0xb2 = Inl NilDereference"
    using n gn t [where m = nilStateManager and tx = plainTx and parentHash = "0xb2"
        and f = NilDereference]
    by blast
  have 3: "ValidateOTSSystemTx nilStateManager strangerSubmittedTx 0xb2 = Inl NilDereference"
    using n gn t [where m = nilStateManager and tx = strangerSubmittedTx
        and parentHash = "0xb2" and f = NilDereference]
    by blast
  have 4: "ValidateOTSSystemTx emptyManager plainTx 0xb2 = Inr (Some ErrSnapshotNotFound)"
    using e ge t [where m = emptyManager and tx = plainTx and parentHash = "0xb2"
        and err = ErrSnapshotNotFound]
    by blast
  have 5: "ValidateOTSSystemTx emptyManager strangerSubmittedTx 0xb2 =
      Inr (Some ErrSnapshotNotFound)"
    using e ge t [where m = emptyManager and tx = strangerSubmittedTx
        and parentHash = "0xb2" and err = ErrSnapshotNotFound]
    by blast
  have 6: "ValidateOTSSystemTx exampleManager plainTx 0xb2 = Inr None"
    using x gx p
      t [where m = exampleManager and tx = plainTx and parentHash = "0xb2"
        and snap = "NewSnapshot 2 0xb2 exampleTriggered"]
    by blast
  from d n e x gn ge gx p 1 2 3 4 5 6 show ?thesis by blast
qed

text \<open>
  C10 as claimed fails: the enabled manager without a snapshot for the parent rejects
  the plain transfer, which matches none of the selectors.
\<close>

theorem ValidateOTSSystemTx_rejects_unrecognized:
  "\<not> IsOTSSystemTx plainTx \<and> TxData plainTx = [] \<and> enabled emptyManager \<and>
   ValidateOTSSystemTx emptyManager plainTx 0xb2 = Inr (Some ErrSnapshotNotFound)"
proof -
  have e: "enabled emptyManager" by (simp add: emptyManager_def)
  have d: "TxData plainTx = []" by (simp add: plainTx_def NewTransaction_def)
  have "ValidateOTSSystemTx emptyManager plainTx 0xb2 = Inr (Some ErrSnapshotNotFound)"
    by (simp add: ValidateOTSSystemTx_def e GetSnapshot_emptyManager)
  with e d plainTx_not_recognized show ?thesis by simp
qed

section \<open>Failure atomicity of the state operations\<close>

text \<open>
  C9. Each of Trigger, MarkSubmitted, MarkConfirmed and MarkAnchored leaves the state
  exactly as it was whenever it returns a non-nil error: Enabled, LastAnchoredBlock and
  CurrentBatch (its presence and every field) are those of the state before the call.
\<close>

theorem state_ops_atomic_on_failure:
  "(fst (Trigger sb eb tb tn rh s) \<noteq> None \<longrightarrow> snd (Trigger sb eb tb tn rh s) = s) \<and>
   (fst (MarkSubmitted d n a s) \<noteq> None \<longrightarrow> snd (MarkSubmitted d n a s) = s) \<and>
   (fst (MarkConfirmed h x t n a s) \<noteq> None \<longrightarrow> snd (MarkConfirmed h x t n a s) = s) \<and>
   (fst (MarkAnchored n a s) \<noteq> None \<longrightarrow> snd (MarkAnchored n a s) = s)"
proof (intro conjI impI)
  assume "fst (Trigger sb eb tb tn rh s) \<noteq> None"
  then show "snd (Trigger sb eb tb tn rh s) = s"
    unfolding Trigger_def by (cases "CanTrigger s") simp_all
next
  assume "fst (MarkSubmitted d n a s) \<noteq> None"
  then show "snd (MarkSubmitted d n a s) = s"
    unfolding MarkSubmitted_def
    by (cases "CurrentBatch s") (simp_all split: if_split_asm)
next
  assume "fst (MarkConfirmed h x t n a s) \<noteq> None"
  then show "snd (MarkConfirmed h x t n a s) = s"
    unfolding MarkConfirmed_def
    by (cases "CurrentBatch s") (simp_all split: if_split_asm)
next
  assume "fst (MarkAnchored n a s) \<noteq> None"
  then show "snd (MarkAnchored n a s) = s"
    unfolding MarkAnchored_def
    by (cases "CurrentBatch s") (simp_all split: if_split_asm)
qed

text \<open>
  The theorem where each operation fails: on a state without a batch (for \<open>Trigger\<close>,
  a disabled one), and on a batch of the wrong status.
\<close>

theorem state_ops_atomic_on_failure_witness:
  "(fst (Trigger 1 2 3 4 5 (NewOTSState False)) \<noteq> None \<and>
    snd (Trigger 1 2 3 4 5 (NewOTSState False)) = NewOTSState False) \<and>
   (fst (MarkSubmitted 7 3 4 (NewOTSState True)) \<noteq> None \<and>
    snd (MarkSubmitted 7 3 4 (NewOTSState True)) = NewOTSState True) \<and>
   (fst (MarkConfirmed 8 ''ab'' 9 3 4 (NewOTSState True)) \<noteq> None \<and>
    snd (MarkConfirmed 8 ''ab'' 9 3 4 (NewOTSState True)) = NewOTSState True) \<and>
   (fst (MarkAnchored 3 4 (NewOTSState True)) \<noteq> None \<and>
    snd (MarkAnchored 3 4 (NewOTSState True)) = NewOTSState True) \<and>
   (fst (Trigger 1 2 3 4 5 exampleTriggered) = Some ErrAlreadyTriggered \<and>
    snd (Trigger 1 2 3 4 5 exampleTriggered) = exampleTriggered) \<and>
   (fst (MarkSubmitted 7 3 4 exampleSubmitted) = Some ErrNotTriggered \<and>
    snd (MarkSubmitted 7 3 4 exampleSubmitted) = exampleSubmitted) \<and>
   (fst (MarkConfirmed 8 ''ab'' 9 3 4 exampleTriggered) = Some ErrNotSubmitted \<and>
    snd (MarkConfirmed 8 ''ab'' 9 3 4 exampleTriggered) = exampleTriggered) \<and>
   (fst (MarkAnchored 3 4 exampleSubmitted) = Some ErrNotConfirmed \<and>
    snd (MarkAnchored 3 4 exampleSubmitted) = exampleSubmitted)"
proof -
  have t: "fst (Trigger 1 2 3 4 5 (NewOTSState False)) \<noteq> None"
    by (simp add: Trigger_def CanTrigger_def NewOTSState_def)
  have s: "fst (MarkSubmitted 7 3 4 (NewOTSState True)) \<noteq> None"
    by (simp add: MarkSubmitted_def NewOTSState_def)
  have c: "fst (MarkConfirmed 8 ''ab'' 9 3 4 (NewOTSState True)) \<noteq> None"
    by (simp add: MarkConfirmed_def NewOTSState_def)
  have a: "fst (MarkAnchored 3 4 (NewOTSState True)) \<noteq> None"
    by (simp add: MarkAnchored_def NewOTSState_def)
  have bt: "CurrentBatch exampleTriggered = Some (triggeredBatch 1 2 0)"
    "Status (triggeredBatch 1 2 0) = BatchStatusTriggered" "Enabled exampleTriggered"
    by (simp_all add: exampleTriggered_def triggeredBatch_def)
  obtain b where bs: "CurrentBatch exampleSubmitted = Some b" "Status b = BatchStatusSubmitted"
    by (simp add: exampleSubmitted_def)
  have t': "fst (Trigger 1 2 3 4 5 exampleTriggered) = Some ErrAlreadyTriggered"
    by (simp add: Trigger_def CanTrigger_def HasActiveBatch_def bt)
  have s': "fst (MarkSubmitted 7 3 4 exampleSubmitted) = Some ErrNotTriggered"
    by (simp add: MarkSubmitted_def bs)
  have c': "fst (MarkConfirmed 8 ''ab'' 9 3 4 exampleTriggered) = Some ErrNotSubmitted"
    by (simp add: MarkConfirmed_def bt)
  have a': "fst (MarkAnchored 3 4 exampleSubmitted) = Some ErrNotConfirmed"
    by (simp add: MarkAnchored_def bs)
  note th = state_ops_atomic_on_failure
  have 1: "snd (Trigger 1 2 3 4 5 (NewOTSState False)) = NewOTSState False"
    using t th [where s = "NewOTSState False" and sb = 1 and eb = 2 and tb = 3 and tn = 4
      and rh = 5] by blast
  have 2: "snd (MarkSubmitted 7 3 4 (NewOTSState True)) = NewOTSState True"
    using s th [where s = "NewOTSState True" and d = 7 and n = 3 and a = 4] by blast
  have 3: "snd (MarkConfirmed 8 ''ab'' 9 3 4 (NewOTSState True)) = NewOTSState True"
    using c th [where s = "NewOTSState True" and h = 8 and x = "''ab''" and t = 9 and n = 3
      and a = 4] by blast
  have 4: "snd (MarkAnchored 3 4 (NewOTSState True)) = NewOTSState True"
    using a th [where s = "NewOTSState True" and n = 3 and a = 4] by blast
  have 5: "snd (Trigger 1 2 3 4 5 exampleTriggered) = exampleTriggered"
    using t' th [where s = exampleTriggered and sb = 1 and eb = 2 and tb = 3 and tn = 4
      and rh = 5] by simp
  have 6: "snd (MarkSubmitted 7 3 4 exampleSubmitted) = exampleSubmitted"
    using s' th [where s = exampleSubmitted and d = 7 and n = 3 and a = 4] by simp
  have 7: "snd (MarkConfirmed 8 ''ab'' 9 3 4 exampleTriggered) = exampleTriggered"
    using c' th [where s = exampleTriggered and h = 8 and x = "''ab''" and t = 9 and n = 3
      and a = 4] by simp
  have 8: "snd (MarkAnchored 3 4 exampleSubmitted) = exampleSubmitted"
    using a' th [where s = exampleSubmitted and n = 3 and a = 4] by simp
  from t s c a t' s' c' a' 1 2 3 4 5 6 7 8 show ?thesis by blast
qed

end
